theory Spec2Isabelle
  imports Main "HOL-Library.Word" "HOL-Library.Signed_Division"
begin

unbundle bit_operations_syntax

section \<open>Data model of the physical channel (src/lib/phys_ch.c, lines 14--39)\<close>

text \<open>
  A bit travels in one byte, so the buffers are lists of \<open>uint8_t\<close>. The macros of
  the source are abbreviations, as the preprocessor expands them. The C \<open>int\<close> fields are
  modelled as unbounded \<open>int\<close>: the counters of this file stay far below \<open>2^31\<close>
  (\<open>total_sync_err\<close> below 320, the sync errors below 15), and the scores grow by one
  per frame.
\<close>

type_synonym uint8_t = "8 word"

abbreviation (input) MAX_FRAME_SYNC_ERR :: int where "MAX_FRAME_SYNC_ERR \<equiv> 1"
abbreviation (input) FRAME_HDR_LEN :: nat where "FRAME_HDR_LEN \<equiv> 8"
abbreviation (input) FRAME_DATA_LEN :: nat where "FRAME_DATA_LEN \<equiv> 152"
abbreviation (input) FRAME_LEN :: nat where "FRAME_LEN \<equiv> FRAME_HDR_LEN + FRAME_DATA_LEN"

text \<open>The capacity \<open>sizeof(phys_ch->data) = 10*FRAME_LEN\<close> of the bit buffer.\<close>

abbreviation (input) DATA_SIZE :: nat where "DATA_SIZE \<equiv> 10 * FRAME_LEN"

text \<open>
  Modelled from the spec: the constants \<open>FRAME_NO_UNKNOWN\<close> and \<open>PHYS_CH_SCR_DETECT\<close>
  are declared in headers that the sources do not contain. The spec gives the frame
  number as a value of \<open>{UNKNOWN} \<union> [0,199]\<close> and the scrambling constant as a value of
  \<open>{DETECT} \<union> [0,127]\<close>; both markers are taken as \<open>-1\<close>, outside the numeric ranges.
\<close>

definition FRAME_NO_UNKNOWN :: int where "FRAME_NO_UNKNOWN = -1"
definition PHYS_CH_SCR_DETECT :: int where "PHYS_CH_SCR_DETECT = -1"

text \<open>
  The anonymous enumerations of tetrapol.h. \<open>tetrapol_phys_ch_create\<close> refuses every
  other value, so no channel object carries one.
\<close>

datatype band_t = TETRAPOL_BAND_VHF | TETRAPOL_BAND_UHF
datatype rch_type_t = TETRAPOL_RCH_CONTROL | TETRAPOL_RCH_TRAFFIC

text \<open>\<open>frame_t\<close>: field \<open>data\<close> holds \<open>FRAME_DATA_LEN\<close> bytes.\<close>

record frame_t =
  f_frame_no :: int
  f_data :: "uint8_t list"

text \<open>
  \<open>decoded_frame_t\<close> (decoded_frame.h): the decoder writes entries 0 to 75 of \<open>data\<close>
  and of \<open>err\<close>, and this file reads no other entry; the lists hold those entries.
\<close>

record decoded_frame_t =
  df_frame_no :: int
  df_data :: "uint8_t list"
  df_err :: "uint8_t list"

text \<open>
  \<open>struct _phys_ch_t\<close>. The C fields \<open>data_len\<close> and \<open>data\<close> are one list: the valid
  prefix \<open>data[0..data_len)\<close> of the array; no function of the file reads the array
  at or beyond \<open>data_len\<close>.
\<close>

record phys_ch_t =
  band :: band_t
  rch_type :: rch_type_t
  last_sync_err :: int
  total_sync_err :: int
  has_frame_sync :: bool
  frame_no :: int
  scr :: int
  scr_guess :: int
  scr_confidence :: int
  scr_stat :: "int list"
  data :: "uint8_t list"

abbreviation data_len :: "phys_ch_t \<Rightarrow> int" where
  "data_len phys_ch \<equiv> int (length (data phys_ch))"

subsection \<open>Effects on the collaborators\<close>

text \<open>
  Calls into the multiblock and segmentation layers and the lines written to stderr
  and stdout are recorded, in program order, in a list of events that every function
  with such an effect takes and returns.
\<close>

datatype event =
    Multiblock_reset
  | Segmentation_reset
  | Multiblock_process decoded_frame_t int
  | Frame_sync_found
  | Frame_sync_lost
  | SCR_detected int
  | ERR_decode int
  | ERR_type int
  | ERR_crc int
  | OK_frame int int int int int int "uint8_t list"
  | Not_implemented_VHF
  | Not_implemented_traffic

text \<open>
  What the file takes from code that the sources do not contain, as parameters:
  the value of \<open>FRAME_TYPE_DATA\<close>, the CRC check, and the frame as
  \<open>multiblock_process\<close> leaves it (it receives a pointer to the decoded frame, whose
  \<open>frame_no\<close> is read after the call; its answer may depend on the calls made so far).
\<close>

record externs =
  FRAME_TYPE_DATA :: int
  decoded_frame_check_crc :: "decoded_frame_t \<Rightarrow> int \<Rightarrow> bool"
  multiblock_process :: "event list \<Rightarrow> decoded_frame_t \<Rightarrow> int \<Rightarrow> decoded_frame_t"

section \<open>Constant tables\<close>

definition scramb_table :: "uint8_t list" where
  "scramb_table = [
    1, 1, 1, 1, 1, 1, 1, 0,
    1, 0, 1, 0, 1, 0, 0, 1,
    1, 0, 0, 1, 1, 1, 0, 1,
    1, 1, 0, 1, 0, 0, 1, 0,
    1, 1, 0, 0, 0, 1, 1, 0,
    1, 1, 1, 1, 0, 1, 1, 0,
    1, 0, 1, 1, 0, 1, 1, 0,
    0, 1, 0, 0, 1, 0, 0, 0,
    1, 1, 1, 0, 0, 0, 0, 1,
    0, 1, 1, 1, 1, 1, 0, 0,
    1, 0, 1, 0, 1, 1, 1, 0,
    0, 1, 1, 0, 1, 0, 0, 0,
    1, 0, 0, 1, 1, 1, 1, 0,
    0, 0, 1, 0, 1, 0, 0, 0,
    0, 1, 1, 0, 0, 0, 0, 0,
    1, 0, 0, 0, 0, 0, 0]"

definition interleave_data_UHF :: "nat list" where
  "interleave_data_UHF = [
    1, 77, 38, 114, 20, 96, 59, 135,
    3, 79, 41, 117, 23, 99, 62, 138,
    5, 81, 44, 120, 26, 102, 65, 141,
    8, 84, 47, 123, 29, 105, 68, 144,
    11, 87, 50, 126, 32, 108, 71, 147,
    14, 90, 53, 129, 35, 111, 74, 150,
    17, 93, 56, 132, 37, 112, 76, 148,
    2, 88, 40, 115, 19, 97, 58, 133,
    4, 75, 43, 118, 22, 100, 61, 136,
    7, 85, 46, 121, 25, 103, 64, 139,
    10, 82, 49, 124, 28, 106, 67, 142,
    13, 91, 52, 127, 31, 109, 73, 145,
    16, 94, 55, 130, 34, 113, 70, 151,
    0, 80, 39, 116, 21, 95, 57, 134,
    6, 78, 42, 119, 24, 98, 60, 137,
    9, 83, 45, 122, 27, 101, 63, 140,
    12, 86, 48, 125, 30, 104, 66, 143,
    15, 89, 51, 128, 33, 107, 69, 146,
    18, 92, 54, 131, 36, 110, 72, 149]"

definition diff_precod_UHF :: "nat list" where
  "diff_precod_UHF = [
    1, 1, 1, 1, 1, 1, 1, 2,
    1, 1, 2, 1, 1, 2, 1, 1,
    2, 1, 1, 2, 1, 1, 2, 1,
    1, 2, 1, 1, 2, 1, 1, 2,
    1, 1, 2, 1, 1, 2, 1, 1,
    2, 1, 1, 2, 1, 1, 2, 1,
    1, 2, 1, 1, 2, 1, 1, 2,
    1, 1, 2, 1, 1, 2, 1, 1,
    2, 1, 1, 2, 1, 1, 2, 1,
    1, 2, 1, 1, 2, 1, 1, 1,
    1, 1, 1, 2, 1, 1, 2, 1,
    1, 2, 1, 1, 2, 1, 1, 2,
    1, 1, 2, 1, 1, 2, 1, 1,
    2, 1, 1, 2, 1, 1, 2, 1,
    1, 2, 1, 1, 2, 1, 1, 2,
    1, 1, 2, 1, 1, 2, 1, 1,
    2, 1, 1, 2, 1, 1, 2, 1,
    1, 2, 1, 1, 2, 1, 1, 2,
    1, 1, 2, 1, 1, 2, 1, 1]"

section \<open>Construction and accessors (lines 79--133)\<close>

text \<open>
  \<open>tetrapol_phys_ch_create\<close>: the object after \<open>memset\<close> to zero and the four
  assignments. The two refusals of invalid parameters and the failure of \<open>malloc\<close>
  return NULL and build no object.
\<close>

definition tetrapol_phys_ch_create :: "band_t \<Rightarrow> rch_type_t \<Rightarrow> phys_ch_t" where
  "tetrapol_phys_ch_create b r =
     \<lparr> band = b, rch_type = r, last_sync_err = 0, total_sync_err = 0,
       has_frame_sync = False, frame_no = FRAME_NO_UNKNOWN, scr = PHYS_CH_SCR_DETECT,
       scr_guess = 0, scr_confidence = 50, scr_stat = replicate 128 0, data = [] \<rparr>"

definition tetrapol_phys_ch_get_scr :: "phys_ch_t \<Rightarrow> int" where
  "tetrapol_phys_ch_get_scr phys_ch = scr phys_ch"

definition tetrapol_phys_ch_set_scr :: "phys_ch_t \<Rightarrow> int \<Rightarrow> phys_ch_t" where
  "tetrapol_phys_ch_set_scr phys_ch s =
     phys_ch\<lparr> scr := s, scr_stat := replicate 128 0 \<rparr>"

definition tetrapol_phys_ch_get_scr_confidence :: "phys_ch_t \<Rightarrow> int" where
  "tetrapol_phys_ch_get_scr_confidence phys_ch = scr_confidence phys_ch"

definition tetrapol_phys_ch_set_scr_confidence :: "phys_ch_t \<Rightarrow> int \<Rightarrow> phys_ch_t" where
  "tetrapol_phys_ch_set_scr_confidence phys_ch c = phys_ch\<lparr> scr_confidence := c \<rparr>"

section \<open>Bit buffer and frame synchronisation (lines 135--259)\<close>

text \<open>
  \<open>differential_dec\<close>: the loop runs over the \<open>size\<close> bytes at \<open>data\<close>, here the
  whole list; the result is the decoded list and the last bit.
\<close>

fun differential_dec :: "uint8_t list \<Rightarrow> uint8_t \<Rightarrow> uint8_t list \<times> uint8_t" where
  "differential_dec [] last_bit = ([], last_bit)"
| "differential_dec (d # ds) last_bit =
     (let b = d XOR last_bit; (ds', l) = differential_dec ds b in (b # ds', l))"

text \<open>
  \<open>tetrapol_recv2\<close>: \<open>buf\<close> holds at least \<open>len\<close> bytes and \<open>len\<close> is not negative
  (\<open>memcpy\<close> with a negative length is undefined in C).
\<close>

definition tetrapol_recv2 :: "phys_ch_t \<Rightarrow> uint8_t list \<Rightarrow> int \<Rightarrow> phys_ch_t \<times> int" where
  "tetrapol_recv2 phys_ch buf len =
     (let space = int DATA_SIZE - data_len phys_ch;
          len' = (if len > space then space else len)
      in (phys_ch\<lparr> data := data phys_ch @ take (nat len') buf \<rparr>, len'))"

definition frame_dsync :: "uint8_t list" where
  "frame_dsync = [1, 0, 1, 0, 0, 1, 1]"

text \<open>
  \<open>cmp_frame_sync\<close>: the argument is the buffer from the pointer \<open>data\<close> on; the
  callers leave at least 8 bytes there.
\<close>

definition cmp_frame_sync :: "uint8_t list \<Rightarrow> int" where
  "cmp_frame_sync d =
     fold (\<lambda>i sync_err. if frame_dsync ! i \<noteq> d ! (i + 1) then sync_err + 1 else sync_err)
       [0..<length frame_dsync] 0"

text \<open>The \<open>while\<close> loop of \<open>find_frame_sync\<close>: the final \<open>offs\<close> and \<open>sync_err\<close>.\<close>

function find_frame_sync_loop :: "uint8_t list \<Rightarrow> nat \<Rightarrow> int \<Rightarrow> nat \<times> int" where
  "find_frame_sync_loop d offs sync_err =
     (if offs + FRAME_LEN + FRAME_HDR_LEN < length d then
        (let sync_err' = cmp_frame_sync (drop offs d) + cmp_frame_sync (drop (offs + FRAME_LEN) d)
         in if sync_err' \<le> MAX_FRAME_SYNC_ERR then (offs, sync_err')
            else find_frame_sync_loop d (offs + 1) sync_err')
      else (offs, sync_err))"
  by pat_completeness auto
termination
  by (relation "measure (\<lambda>(d, offs, sync_err). length d - offs)") auto

declare find_frame_sync_loop.simps [simp del]

definition find_frame_sync :: "phys_ch_t \<Rightarrow> int \<times> phys_ch_t" where
  "find_frame_sync phys_ch =
     (let (offs, sync_err) = find_frame_sync_loop (data phys_ch) 0 (MAX_FRAME_SYNC_ERR + 1);
          phys_ch1 = phys_ch\<lparr> data := drop offs (data phys_ch) \<rparr>
      in if sync_err \<le> MAX_FRAME_SYNC_ERR
         then (1, phys_ch1\<lparr> last_sync_err := 0, total_sync_err := 0 \<rparr>)
         else (0, phys_ch1))"

text \<open>
  \<open>get_frame\<close>: the return value, the channel, and the frame written through the
  pointer (none when the function returns before writing it).
\<close>

definition get_frame :: "phys_ch_t \<Rightarrow> int \<times> phys_ch_t \<times> frame_t option" where
  "get_frame phys_ch =
     (if data_len phys_ch < int FRAME_LEN then (0, phys_ch, None)
      else
        let sync_err = cmp_frame_sync (data phys_ch);
            failed = (sync_err + last_sync_err phys_ch > MAX_FRAME_SYNC_ERR);
            phys_ch1 =
              (if failed then phys_ch\<lparr> total_sync_err := 1 + 2 * total_sync_err phys_ch \<rparr>
               else phys_ch\<lparr> total_sync_err := 0 \<rparr>)
        in if failed \<and> total_sync_err phys_ch1 \<ge> int FRAME_LEN then (-1, phys_ch1, None)
           else
             let phys_ch2 = phys_ch1\<lparr> last_sync_err := sync_err \<rparr>;
                 fdata = fst (differential_dec
                           (take FRAME_DATA_LEN (drop FRAME_HDR_LEN (data phys_ch2))) 0);
                 phys_ch3 = phys_ch2\<lparr> data := drop FRAME_LEN (data phys_ch2) \<rparr>
             in (1, phys_ch3, Some \<lparr> f_frame_no = frame_no phys_ch3, f_data = fdata \<rparr>))"

section \<open>Frame pipeline (lines 261--410)\<close>

text \<open>The macro \<open>GET_IN_(x, y)\<close> of \<open>channel_decoder\<close>.\<close>

definition GET_IN :: "uint8_t list \<Rightarrow> nat \<Rightarrow> nat \<Rightarrow> nat \<Rightarrow> uint8_t" where
  "GET_IN inp res_len x y = inp ! ((x + y) mod (2 * res_len))"

text \<open>
  \<open>channel_decoder\<close>: the argument is the input from the pointer \<open>in\<close> on. Iteration
  \<open>i\<close> writes \<open>res[i]\<close> and \<open>err[i]\<close>, so the two outputs grow by one entry per
  iteration; \<open>errs\<close> adds the byte \<open>err[i]\<close> as an integer.
\<close>

definition channel_decoder :: "uint8_t list \<Rightarrow> nat \<Rightarrow> uint8_t list \<times> uint8_t list \<times> int" where
  "channel_decoder inp res_len =
     fold (\<lambda>i (res, err, errs).
             let r = GET_IN inp res_len (2 * i) 2 XOR GET_IN inp res_len (2 * i) 3;
                 e = (GET_IN inp res_len (2 * i) 5 XOR GET_IN inp res_len (2 * i) 6)
                       XOR GET_IN inp res_len (2 * i) 7;
                 e' = e XOR r
             in (res @ [r], err @ [e'], errs + uint e'))
       [0..<res_len] ([], [], 0)"

definition frame_decode_data :: "frame_t \<Rightarrow> int \<times> decoded_frame_t" where
  "frame_decode_data f =
     (let (res1, err1, errs1) = channel_decoder (f_data f) 26;
          (res2, err2, errs2) = channel_decoder (drop (2 * 26) (f_data f)) 50
      in (errs1 + errs2,
          \<lparr> df_frame_no = f_frame_no f, df_data = res1 @ res2, df_err = err1 @ err2 \<rparr>))"

text \<open>\<open>frame_deinterleave\<close>: \<open>tmp\<close> is the copy of the payload made before the loop.\<close>

definition frame_deinterleave :: "frame_t \<Rightarrow> nat list \<Rightarrow> frame_t" where
  "frame_deinterleave f int_table =
     (let tmp = f_data f
      in f\<lparr> f_data := fold (\<lambda>j d. d[j := tmp ! (int_table ! j)]) [0..<FRAME_DATA_LEN] (f_data f) \<rparr>)"

text \<open>\<open>frame_diff_dec\<close>: \<open>j\<close> runs from \<open>FRAME_DATA_LEN - 1\<close> down to 1.\<close>

definition frame_diff_dec :: "frame_t \<Rightarrow> frame_t" where
  "frame_diff_dec f =
     f\<lparr> f_data := fold (\<lambda>j d. d[j := d ! j XOR d ! (j - diff_precod_UHF ! j)])
                      (rev [1..<FRAME_DATA_LEN]) (f_data f) \<rparr>"

text \<open>
  \<open>frame_descramble\<close>: \<open>%\<close> of C truncates towards zero (\<open>smod\<close>). The callers pass
  a key that is not negative, so that the index lies in the table; a negative key would
  read before the table in C.
\<close>

definition frame_descramble :: "frame_t \<Rightarrow> int \<Rightarrow> frame_t" where
  "frame_descramble f s =
     (if s = 0 then f
      else f\<lparr> f_data := fold (\<lambda>k d. d[k := d ! k XOR scramb_table ! nat ((int k + s) smod 127)])
                             [0..<FRAME_DATA_LEN] (f_data f) \<rparr>)"

section \<open>SCR detection and frame processing (lines 412--548)\<close>

text \<open>
  The speculative pipeline that \<open>detect_scr\<close> runs on a copy of the frame for the key
  \<open>s\<close>: descrambling, for UHF the inverse precoding and the deinterleaving, then the
  channel decoder.
\<close>

definition detect_scr_decode :: "band_t \<Rightarrow> frame_t \<Rightarrow> nat \<Rightarrow> int \<times> decoded_frame_t" where
  "detect_scr_decode b f s =
     (let f1 = frame_descramble f (int s);
          f2 = (if b = TETRAPOL_BAND_VHF then f1
                else frame_deinterleave (frame_diff_dec f1) interleave_data_UHF)
      in frame_decode_data f2)"

text \<open>One iteration of the first loop of \<open>detect_scr\<close>: the score of the key \<open>s\<close>.\<close>

definition detect_scr_update :: "externs \<Rightarrow> band_t \<Rightarrow> frame_t \<Rightarrow> nat \<Rightarrow> int list \<Rightarrow> int list" where
  "detect_scr_update X b f s stat =
     (let (errs, df) = detect_scr_decode b f s in
      if errs \<noteq> 0 then
        (let stat1 = stat[s := stat ! s - 2]
         in if stat1 ! s < 0 then stat1[s := 0] else stat1)
      else if \<not> decoded_frame_check_crc X df (FRAME_TYPE_DATA X) then
        (let stat1 = stat[s := stat ! s - 2]
         in if stat1 ! s < 0 then stat1[s := 0] else stat1)
      else stat[s := stat ! s + 1])"

text \<open>The search for the two best keys: \<open>scr_max\<close> and \<open>scr_max2\<close> after the second loop.\<close>

definition detect_scr_max :: "int list \<Rightarrow> nat \<times> nat" where
  "detect_scr_max stat =
     fold (\<lambda>s (scr_max, scr_max2).
             if stat ! s \<ge> stat ! scr_max then (s, scr_max) else (scr_max, scr_max2))
       [2..<128]
       (if stat ! 0 < stat ! 1 then (1, 0) else (0, 1))"

definition detect_scr :: "externs \<Rightarrow> phys_ch_t \<Rightarrow> frame_t \<Rightarrow> event list \<Rightarrow> phys_ch_t \<times> event list" where
  "detect_scr X phys_ch f tr =
     (let stat = fold (detect_scr_update X (band phys_ch) f) [0..<128] (scr_stat phys_ch);
          phys_ch1 = phys_ch\<lparr> scr_stat := stat \<rparr>;
          (scr_max, scr_max2) = detect_scr_max stat;
          (phys_ch2, tr2) =
            (if stat ! scr_max - scr_confidence phys_ch1 > stat ! scr_max2
             then (phys_ch1\<lparr> scr := int scr_max \<rparr>, tr @ [SCR_detected (int scr_max)])
             else (phys_ch1, tr))
      in (phys_ch2\<lparr> scr_guess := int scr_max \<rparr>, tr2))"

text \<open>
  \<open>process_frame_cch\<close> reads the channel and changes the frame: the result is the
  return value, the frame and the events.
\<close>

definition process_frame_cch ::
  "externs \<Rightarrow> phys_ch_t \<Rightarrow> frame_t \<Rightarrow> event list \<Rightarrow> int \<times> frame_t \<times> event list" where
  "process_frame_cch X phys_ch f tr =
     (let s = (if scr phys_ch = PHYS_CH_SCR_DETECT then scr_guess phys_ch else scr phys_ch);
          f1 = frame_descramble f s
      in if band phys_ch = TETRAPOL_BAND_VHF then (-1, f1, tr @ [Not_implemented_VHF])
         else
           let f2 = frame_deinterleave (frame_diff_dec f1) interleave_data_UHF;
               (errs, df) = frame_decode_data f2
           in if errs \<noteq> 0 then
                (0, f2, tr @ [ERR_decode (f_frame_no f2), Multiblock_reset, Segmentation_reset])
              else if uint (df_data df ! 0) \<noteq> FRAME_TYPE_DATA X then
                (0, f2, tr @ [ERR_type (f_frame_no f2), Multiblock_reset, Segmentation_reset])
              else if \<not> decoded_frame_check_crc X df (FRAME_TYPE_DATA X) then
                (0, f2, tr @ [ERR_crc (f_frame_no f2), Multiblock_reset, Segmentation_reset])
              else
                let asbx = uint (df_data df ! 67);
                    asby = uint (df_data df ! 68);
                    fn0 = uint (df_data df ! 1);
                    fn1 = uint (df_data df ! 2);
                    tr1 = tr @ [OK_frame (df_frame_no df) fn1 fn0 asbx asby s
                                  (take 64 (drop 3 (df_data df)))];
                    df' = multiblock_process X tr1 df (2 * fn1 + fn0);
                    tr2 = tr1 @ [Multiblock_process df (2 * fn1 + fn0)]
                in (0, f2\<lparr> f_frame_no := df_frame_no df' \<rparr>, tr2))"

definition process_frame_traffic_ch ::
  "phys_ch_t \<Rightarrow> frame_t \<Rightarrow> event list \<Rightarrow> int \<times> frame_t \<times> event list" where
  "process_frame_traffic_ch phys_ch f tr = (-1, f, tr @ [Not_implemented_traffic])"

definition process_frame ::
  "externs \<Rightarrow> phys_ch_t \<Rightarrow> frame_t \<Rightarrow> event list \<Rightarrow> int \<times> phys_ch_t \<times> frame_t \<times> event list" where
  "process_frame X phys_ch f tr =
     (let (phys_ch1, tr1) =
            (if scr phys_ch = PHYS_CH_SCR_DETECT then detect_scr X phys_ch f tr
             else (phys_ch, tr));
          (r, f', tr2) =
            (if rch_type phys_ch1 = TETRAPOL_RCH_CONTROL then process_frame_cch X phys_ch1 f tr1
             else process_frame_traffic_ch phys_ch1 f tr1)
      in (r, phys_ch1, f', tr2))"

section \<open>The driver \<open>tetrapol_phys_ch_process\<close> (lines 229--259)\<close>

text \<open>
  The acquisition block of \<open>tetrapol_phys_ch_process\<close> (lines 231--240), up to its
  \<open>return 0\<close>, which the driver takes when the block leaves the channel without sync.
\<close>

definition process_sync :: "phys_ch_t \<Rightarrow> event list \<Rightarrow> phys_ch_t \<times> event list" where
  "process_sync phys_ch tr =
     (if \<not> has_frame_sync phys_ch then
        (let (r, phys_ch1) = find_frame_sync phys_ch;
             phys_ch2 = phys_ch1\<lparr> has_frame_sync := (r \<noteq> 0) \<rparr>
         in if \<not> has_frame_sync phys_ch2 then (phys_ch2, tr)
            else (phys_ch2\<lparr> frame_no := FRAME_NO_UNKNOWN \<rparr>,
                  tr @ [Frame_sync_found, Multiblock_reset, Segmentation_reset]))
      else (phys_ch, tr))"

text \<open>
  The \<open>while\<close> loop of the driver (lines 244--249): the last value of \<open>r\<close>, the
  channel and the events.
\<close>

function frame_loop :: "externs \<Rightarrow> phys_ch_t \<Rightarrow> event list \<Rightarrow> int \<times> phys_ch_t \<times> event list" where
  "frame_loop X phys_ch tr =
     (let (r, phys_ch1, fo) = get_frame phys_ch in
      if r > 0 then
        (case fo of
           None \<Rightarrow> (r, phys_ch1, tr)
         | Some frame \<Rightarrow>
             let (r', phys_ch2, frame', tr') = process_frame X phys_ch1 frame tr;
                 phys_ch3 =
                   (if f_frame_no frame' \<noteq> FRAME_NO_UNKNOWN
                    then phys_ch2\<lparr> frame_no := (f_frame_no frame' + 1) smod 200 \<rparr>
                    else phys_ch2)
             in frame_loop X phys_ch3 tr')
      else (r, phys_ch1, tr))"
  by pat_completeness auto
termination
proof (relation "measure (\<lambda>(X, phys_ch, tr). length (data phys_ch))", goal_cases)
  case 1
  show ?case by simp
next
  case (2 X phys_ch tr x r y phys_ch1 fo frame xa r' ya phys_ch2 yb frame' tr' phys_ch3)
  have g: "get_frame phys_ch = (r, phys_ch1, Some frame)"
    using 2 by simp
  have r: "0 < r"
    using 2 by simp
  have p: "process_frame X phys_ch1 frame tr = (r', phys_ch2, frame', tr')"
    using 2 by simp
  have "data phys_ch1 = drop 160 (data phys_ch) \<and> 160 \<le> length (data phys_ch)"
    using g r by (auto simp: get_frame_def Let_def split: if_splits)
  moreover have "data (fst (detect_scr X phys_ch1 frame tr)) = data phys_ch1"
    by (simp add: detect_scr_def Let_def split: prod.splits)
  then have "data phys_ch2 = data phys_ch1"
    using p by (auto simp: process_frame_def Let_def split: prod.splits if_splits)
  moreover have "data phys_ch3 = data phys_ch2"
    using 2 by (simp split: if_splits)
  ultimately have "length (data phys_ch3) = length (data phys_ch) - 160"
    and "160 \<le> length (data phys_ch)"
    by simp_all
  then show ?case
    by simp
qed

declare frame_loop.simps [simp del]

definition tetrapol_phys_ch_process ::
  "externs \<Rightarrow> phys_ch_t \<Rightarrow> event list \<Rightarrow> int \<times> phys_ch_t \<times> event list" where
  "tetrapol_phys_ch_process X phys_ch tr =
     (let (phys_ch1, tr1) = process_sync phys_ch tr in
      if \<not> has_frame_sync phys_ch1 then (0, phys_ch1, tr1)
      else
        let (r, phys_ch2, tr2) = frame_loop X phys_ch1 tr1 in
        if r = 0 then (0, phys_ch2, tr2)
        else (0, phys_ch2\<lparr> has_frame_sync := False \<rparr>, tr2 @ [Frame_sync_lost]))"

section \<open>Notions and inputs used in the statements\<close>

text \<open>A frame whose payload bytes are 0, 1, ..., 151, all different.\<close>

definition example_frame :: frame_t where
  "example_frame = \<lparr> f_frame_no = 0, f_data = map of_nat [0..<152] \<rparr>"

text \<open>
  A synced channel one failed frame before the loss of sync (seven failed sum tests
  lead to \<open>total_sync_err = 127\<close>), whose buffer holds one frame of zero bits.
\<close>

definition sync_loss_ch :: phys_ch_t where
  "sync_loss_ch =
     (tetrapol_phys_ch_create TETRAPOL_BAND_UHF TETRAPOL_RCH_CONTROL)
       \<lparr> has_frame_sync := True, last_sync_err := 2, total_sync_err := 127,
         data := replicate 160 0 \<rparr>"

text \<open>
  A run of frames each failing the sum test, in the claim's words: the buffer \<open>d\<close>
  starts with \<open>n\<close> frames, and for each of them the errors of its sync word plus
  the errors of the sync word before it (\<open>lst\<close> for the first) exceed
  \<open>MAX_FRAME_SYNC_ERR\<close>.
\<close>

fun sum_test_fails_run :: "int \<Rightarrow> uint8_t list \<Rightarrow> nat \<Rightarrow> bool" where
  "sum_test_fails_run lst d 0 = True"
| "sum_test_fails_run lst d (Suc n) =
     (cmp_frame_sync d + lst > MAX_FRAME_SYNC_ERR
      \<and> sum_test_fails_run (cmp_frame_sync d) (drop FRAME_LEN d) n)"

text \<open>The counter after \<open>k\<close> updates \<open>t \<leftarrow> 1 + 2*t\<close>.\<close>

fun total_after :: "nat \<Rightarrow> int \<Rightarrow> int" where
  "total_after 0 t = t"
| "total_after (Suc k) t = total_after k (1 + 2 * t)"

text \<open>A synced traffic channel whose buffer holds eight frames of zero bits.\<close>

definition eight_bad_frames_ch :: phys_ch_t where
  "eight_bad_frames_ch =
     (tetrapol_phys_ch_create TETRAPOL_BAND_UHF TETRAPOL_RCH_TRAFFIC)
       \<lparr> has_frame_sync := True, data := replicate (8 * 160) 0 \<rparr>"

text \<open>
  The first matching offset, in the claim's words: the first \<open>offs\<close> among
  0, 1, 2, ... with \<open>offs + FRAME_LEN + FRAME_HDR_LEN < length\<close> whose two sync words
  have at most \<open>MAX_FRAME_SYNC_ERR\<close> errors together.
\<close>

definition first_sync_offset :: "uint8_t list \<Rightarrow> nat option" where
  "first_sync_offset d =
     find (\<lambda>offs. cmp_frame_sync (drop offs d) + cmp_frame_sync (drop (offs + FRAME_LEN) d)
                    \<le> MAX_FRAME_SYNC_ERR)
       [0..<length d - (FRAME_LEN + FRAME_HDR_LEN)]"

text \<open>
  An unsynced channel whose buffer holds three zero bits, a frame with a clean sync
  word, and the header of the next frame.
\<close>

definition sync_header :: "uint8_t list" where
  "sync_header = [0, 1, 0, 1, 0, 0, 1, 1]"

definition unsynced_ch :: phys_ch_t where
  "unsynced_ch =
     (tetrapol_phys_ch_create TETRAPOL_BAND_UHF TETRAPOL_RCH_TRAFFIC)
       \<lparr> data := replicate 3 0 @ sync_header @ replicate 152 0 @ sync_header @ replicate 2 0 \<rparr>"

text \<open>
  The score rule in the spec's words: a key whose speculative pipeline yields
  convolutional errors or a CRC failure loses 2, not below 0; any other key gains 1.
\<close>

definition scr_score :: "externs \<Rightarrow> band_t \<Rightarrow> frame_t \<Rightarrow> nat \<Rightarrow> int \<Rightarrow> int" where
  "scr_score X b f k v =
     (if fst (detect_scr_decode b f k) > 0
         \<or> \<not> decoded_frame_check_crc X (snd (detect_scr_decode b f k)) (FRAME_TYPE_DATA X)
      then max 0 (v - 2) else v + 1)"

text \<open>Score non-negativity: the 128 scores are all at least 0.\<close>

definition scr_stat_ok :: "phys_ch_t \<Rightarrow> bool" where
  "scr_stat_ok phys_ch \<longleftrightarrow>
     length (scr_stat phys_ch) = 128 \<and> (\<forall>v\<in>set (scr_stat phys_ch). 0 \<le> v)"

text \<open>
  A fresh UHF control channel, and collaborators whose CRC check rejects every frame
  (as it does on noise).
\<close>

definition fresh_ch :: phys_ch_t where
  "fresh_ch = tetrapol_phys_ch_create TETRAPOL_BAND_UHF TETRAPOL_RCH_CONTROL"

definition crc_fail_externs :: externs where
  "crc_fail_externs =
     \<lparr> FRAME_TYPE_DATA = 1, decoded_frame_check_crc = (\<lambda>df t. False),
       multiblock_process = (\<lambda>tr df fn. df) \<rparr>"

text \<open>A fresh VHF control channel.\<close>

definition vhf_ch :: phys_ch_t where
  "vhf_ch = tetrapol_phys_ch_create TETRAPOL_BAND_VHF TETRAPOL_RCH_CONTROL"

text \<open>
  The runner-up score, in the claim's words: the highest score among the 128 keys other
  than the best key.
\<close>

definition runner_up :: "int list \<Rightarrow> nat \<Rightarrow> int" where
  "runner_up stat best = Max (set (map (\<lambda>k. stat ! k) (filter (\<lambda>k. k \<noteq> best) [0..<128])))"

text \<open>
  The keys that the search of \<open>detect_scr\<close> has compared before it reaches the key
  \<open>best\<close>: all lower keys, and for the keys 0 and 1, which start the search, the other
  of the two.
\<close>

definition visited_before :: "nat \<Rightarrow> nat list" where
  "visited_before best = (if best < 2 then [1 - best] else [0..<best])"

text \<open>
  A channel in detection on which key 42 is far ahead, and a channel in detection with
  the confidence 7 whose scores are 12, 2, 7 and 0 for all other keys.
\<close>

definition commit_ch :: phys_ch_t where
  "commit_ch = fresh_ch\<lparr> scr_stat := (replicate 128 0)[42 := 60] \<rparr>"

definition slip_ch :: phys_ch_t where
  "slip_ch = fresh_ch\<lparr> scr_stat := [12, 2, 7] @ replicate 125 0, scr_confidence := 7 \<rparr>"

section \<open>Auxiliary facts\<close>

lemma scr_stat_ok_nth:
  "scr_stat_ok phys_ch \<longleftrightarrow>
     length (scr_stat phys_ch) = 128 \<and> (\<forall>k<128. 0 \<le> scr_stat phys_ch ! k)"
  by (auto simp: scr_stat_ok_def all_set_conv_all_nth)

lemma detect_scr_data: "data (fst (detect_scr X phys_ch f tr)) = data phys_ch"
  by (simp add: detect_scr_def Let_def split: prod.splits)

lemma process_frame_data:
  "process_frame X phys_ch f tr = (r, phys_ch1, f', tr') \<Longrightarrow> data phys_ch1 = data phys_ch"
  using detect_scr_data [of X phys_ch f tr]
  by (auto simp: process_frame_def Let_def split: prod.splits if_splits)


lemma get_frame_short:
  "length (data phys_ch) < 160 \<Longrightarrow> get_frame phys_ch = (0, phys_ch, None)"
  by (simp add: get_frame_def)

lemma get_frame_cases:
  obtains (short) "length (data phys_ch) < 160" "get_frame phys_ch = (0, phys_ch, None)"
  | (lost) "160 \<le> length (data phys_ch)"
      "cmp_frame_sync (data phys_ch) + last_sync_err phys_ch > 1"
      "1 + 2 * total_sync_err phys_ch \<ge> 160"
      "get_frame phys_ch
        = (-1, phys_ch\<lparr> total_sync_err := 1 + 2 * total_sync_err phys_ch \<rparr>, None)"
  | (frame) phys_ch1 fr where "160 \<le> length (data phys_ch)"
      "get_frame phys_ch = (1, phys_ch1, Some fr)"
      "data phys_ch1 = drop 160 (data phys_ch)"
      "scr_stat phys_ch1 = scr_stat phys_ch"
      "has_frame_sync phys_ch1 = has_frame_sync phys_ch"
      "last_sync_err phys_ch1 = cmp_frame_sync (data phys_ch)"
      "total_sync_err phys_ch1 =
         (if cmp_frame_sync (data phys_ch) + last_sync_err phys_ch > 1
          then 1 + 2 * total_sync_err phys_ch else 0)"
      "cmp_frame_sync (data phys_ch) + last_sync_err phys_ch > 1
         \<longrightarrow> 1 + 2 * total_sync_err phys_ch < 160"
  by (cases "length (data phys_ch) < 160";
      cases "cmp_frame_sync (data phys_ch) + last_sync_err phys_ch > 1";
      cases "1 + 2 * total_sync_err phys_ch \<ge> 160")
     (simp_all add: get_frame_def Let_def)

lemma frame_loop_stop:
  "get_frame phys_ch = (r, phys_ch1, None) \<Longrightarrow> frame_loop X phys_ch tr = (r, phys_ch1, tr)"
  by (subst frame_loop.simps) simp

lemma frame_loop_step:
  "get_frame phys_ch = (1, phys_ch1, Some fr) \<Longrightarrow>
   process_frame X phys_ch1 fr tr = (r', phys_ch2, fr', tr') \<Longrightarrow>
   frame_loop X phys_ch tr =
     frame_loop X
       (if f_frame_no fr' \<noteq> FRAME_NO_UNKNOWN
        then phys_ch2\<lparr> frame_no := (f_frame_no fr' + 1) smod 200 \<rparr> else phys_ch2) tr'"
  by (subst frame_loop.simps) (simp add: Let_def)

lemma frame_loop_cases_induct [consumes 0, case_names stop step]:
  assumes stop: "\<And>phys_ch tr r phys_ch1.
            get_frame phys_ch = (r, phys_ch1, None) \<Longrightarrow> r = 0 \<or> r = -1 \<Longrightarrow> P phys_ch tr"
    and step: "\<And>phys_ch tr phys_ch1 fr r' phys_ch2 fr' tr'.
            get_frame phys_ch = (1, phys_ch1, Some fr) \<Longrightarrow>
            process_frame X phys_ch1 fr tr = (r', phys_ch2, fr', tr') \<Longrightarrow>
            P (if f_frame_no fr' \<noteq> FRAME_NO_UNKNOWN
               then phys_ch2\<lparr> frame_no := (f_frame_no fr' + 1) smod 200 \<rparr> else phys_ch2) tr' \<Longrightarrow>
            P phys_ch tr"
  shows "P phys_ch tr"
proof (induction "length (data phys_ch)" arbitrary: phys_ch tr rule: less_induct)
  case (less phys_ch tr)
  show ?case
  proof (cases phys_ch rule: get_frame_cases)
    case short
    then show ?thesis using stop by blast
  next
    case lost
    then show ?thesis using stop by blast
  next
    case (frame phys_ch1 fr)
    obtain r' phys_ch2 fr' tr' where p: "process_frame X phys_ch1 fr tr = (r', phys_ch2, fr', tr')"
      by (cases "process_frame X phys_ch1 fr tr") auto
    let ?next = "if f_frame_no fr' \<noteq> FRAME_NO_UNKNOWN
               then phys_ch2\<lparr> frame_no := (f_frame_no fr' + 1) smod 200 \<rparr> else phys_ch2"
    have "data ?next = drop 160 (data phys_ch)"
      using process_frame_data [OF p] frame(3) by simp
    then have "length (data ?next) < length (data phys_ch)"
      using frame(1) by simp
    then have "P ?next tr'"
      by (rule less.hyps)
    with frame(2) p show ?thesis
      by (rule step)
  qed
qed

lemma fold_upd_indep:
  "n \<le> length d \<Longrightarrow>
   fold (\<lambda>k d. d[k := h k (d ! k)]) [0..<n] d = map (\<lambda>k. h k (d ! k)) [0..<n] @ drop n d"
proof (induction n)
  case 0
  then show ?case by simp
next
  case (Suc n)
  then have n: "n < length d" by simp
  have "fold (\<lambda>k d. d[k := h k (d ! k)]) [0..<Suc n] d
        = (map (\<lambda>k. h k (d ! k)) [0..<n] @ drop n d)[n := h n ((map (\<lambda>k. h k (d ! k)) [0..<n] @ drop n d) ! n)]"
    using Suc by simp
  also have "(map (\<lambda>k. h k (d ! k)) [0..<n] @ drop n d) ! n = d ! n"
    using n by (simp add: nth_append)
  also have "(map (\<lambda>k. h k (d ! k)) [0..<n] @ drop n d)[n := h n (d ! n)]
        = map (\<lambda>k. h k (d ! k)) [0..<n] @ (drop n d)[0 := h n (d ! n)]"
    by (simp add: list_update_append)
  also have "(drop n d)[0 := h n (d ! n)] = h n (d ! n) # drop (Suc n) d"
    using n by (simp add: Cons_nth_drop_Suc [symmetric])
  finally show ?case by simp
qed

lemma interleave_length: "length interleave_data_UHF = 152"
  by (simp add: interleave_data_UHF_def)

lemma interleave_distinct: "distinct interleave_data_UHF"
  by (simp add: interleave_data_UHF_def)

lemma interleave_bound: "list_all (\<lambda>n. n < 152) interleave_data_UHF"
  by (simp add: interleave_data_UHF_def)

lemma interleave_set: "set interleave_data_UHF = {0..<152}"
proof (rule card_subset_eq)
  show "finite {0..<152::nat}" by simp
  show "set interleave_data_UHF \<subseteq> {0..<152}"
    using interleave_bound by (auto simp: list_all_iff)
  show "card (set interleave_data_UHF) = card {0..<152::nat}"
    using interleave_distinct interleave_length by (simp add: distinct_card)
qed

lemma interleave_nth_less: "j < 152 \<Longrightarrow> interleave_data_UHF ! j < 152"
  using interleave_bound interleave_length by (simp add: list_all_length)

lemma frame_deinterleave_data:
  assumes "length (f_data f) = 152"
  shows "f_data (frame_deinterleave f t) = map (\<lambda>j. f_data f ! (t ! j)) [0..<152]"
proof -
  have "fold (\<lambda>j d. d[j := f_data f ! (t ! j)]) [0..<152] (f_data f)
        = map (\<lambda>j. f_data f ! (t ! j)) [0..<152] @ drop 152 (f_data f)"
    using fold_upd_indep [of 152 "f_data f" "\<lambda>j _. f_data f ! (t ! j)"] assms by simp
  then show ?thesis
    using assms by (simp add: frame_deinterleave_def Let_def)
qed

lemma interleave_inverse:
  assumes "i < 152"
  obtains j where "j < 152" and "interleave_data_UHF ! j = i"
proof -
  from assms have "i \<in> set interleave_data_UHF"
    by (simp add: interleave_set)
  then show thesis
    using that by (auto simp: in_set_conv_nth interleave_length)
qed

lemma frame_deinterleave_inj:
  assumes "length (f_data f) = 152" and "length (f_data g) = 152"
    and eq: "frame_deinterleave f interleave_data_UHF = frame_deinterleave g interleave_data_UHF"
  shows "f = g"
proof -
  have more: "f_frame_no f = f_frame_no g \<and> frame_t.more f = frame_t.more g"
    using eq by (auto simp: frame_deinterleave_def Let_def frame_t.defs dest: arg_cong [where f = f_frame_no])
  have m: "map (\<lambda>j. f_data f ! (interleave_data_UHF ! j)) [0..<152]
         = map (\<lambda>j. f_data g ! (interleave_data_UHF ! j)) [0..<152]"
  proof -
    have "f_data (frame_deinterleave f interleave_data_UHF)
          = f_data (frame_deinterleave g interleave_data_UHF)"
      using eq by simp
    then show ?thesis
      by (simp only: frame_deinterleave_data [OF assms(1)] frame_deinterleave_data [OF assms(2)])
  qed
  have "f_data f ! i = f_data g ! i" if "i < 152" for i
  proof -
    from that obtain j where j: "j < 152" "interleave_data_UHF ! j = i"
      by (rule interleave_inverse)
    from m j(1) have "f_data f ! (interleave_data_UHF ! j) = f_data g ! (interleave_data_UHF ! j)"
      by (metis (no_types, lifting) add_0 diff_zero length_upt nth_map nth_upt)
    with j(2) show ?thesis by simp
  qed
  then have "f_data f = f_data g"
    using assms by (simp add: list_eq_iff_nth_eq)
  with more show ?thesis by simp
qed

lemma frame_deinterleave_surj:
  assumes "length (f_data g) = 152"
  obtains f where "length (f_data f) = 152" and "frame_deinterleave f interleave_data_UHF = g"
proof -
  define inv where "inv i = (SOME j. j < 152 \<and> interleave_data_UHF ! j = i)" for i
  have inv: "inv (interleave_data_UHF ! j) = j" if "j < 152" for j
  proof -
    have "inv (interleave_data_UHF ! j) < 152 \<and>
          interleave_data_UHF ! inv (interleave_data_UHF ! j) = interleave_data_UHF ! j"
      unfolding inv_def using that by (rule_tac someI [where x = j]) simp
    then show ?thesis
      using that nth_eq_iff_index_eq [OF interleave_distinct, of "inv (interleave_data_UHF ! j)" j]
      by (simp add: interleave_length)
  qed
  define f where "f = g\<lparr> f_data := map (\<lambda>i. f_data g ! inv i) [0..<152] \<rparr>"
  have len: "length (f_data f) = 152"
    by (simp add: f_def)
  have "f_data (frame_deinterleave f interleave_data_UHF) = f_data g"
  proof (rule nth_equalityI)
    show "length (f_data (frame_deinterleave f interleave_data_UHF)) = length (f_data g)"
      using assms by (simp add: frame_deinterleave_data [OF len])
    fix j assume "j < length (f_data (frame_deinterleave f interleave_data_UHF))"
    then have j: "j < 152"
      by (simp add: frame_deinterleave_data [OF len])
    have "f_data (frame_deinterleave f interleave_data_UHF) ! j
          = f_data f ! (interleave_data_UHF ! j)"
      using j by (simp add: frame_deinterleave_data [OF len])
    also have "\<dots> = f_data g ! inv (interleave_data_UHF ! j)"
      using interleave_nth_less [OF j] by (simp add: f_def)
    finally show "f_data (frame_deinterleave f interleave_data_UHF) ! j = f_data g ! j"
      using inv [OF j] by simp
  qed
  then have "frame_deinterleave f interleave_data_UHF = g"
    by (simp add: frame_deinterleave_def Let_def f_def)
  with len show thesis by (rule that)
qed

lemma find_frame_sync_fields:
  "data (snd (find_frame_sync phys_ch))
     = drop (fst (find_frame_sync_loop (data phys_ch) 0 2)) (data phys_ch)"
  "scr_stat (snd (find_frame_sync phys_ch)) = scr_stat phys_ch"
  by (simp_all add: find_frame_sync_def Let_def split: prod.splits)

lemma process_sync_fields:
  "length (data (fst (process_sync phys_ch tr))) \<le> length (data phys_ch)"
  "scr_stat (fst (process_sync phys_ch tr)) = scr_stat phys_ch"
  using find_frame_sync_fields [of phys_ch]
  by (auto simp: process_sync_def Let_def split: prod.splits)

lemma frame_loop_data_le:
  "length (data (fst (snd (frame_loop X phys_ch tr)))) \<le> length (data phys_ch)"
proof (induction phys_ch tr rule: frame_loop_cases_induct [where X = X])
  case (stop phys_ch tr r phys_ch1)
  then show ?case
    by (cases phys_ch rule: get_frame_cases) (auto simp: frame_loop_stop)
next
  case (step phys_ch tr phys_ch1 fr r' phys_ch2 fr' tr')
  have "data phys_ch1 = drop 160 (data phys_ch)"
    using step(1) by (cases phys_ch rule: get_frame_cases) auto
  then show ?case
    using step(3) process_frame_data [OF step(2)]
    by (simp add: frame_loop_step [OF step(1) step(2)] split: if_splits)
qed

lemma tetrapol_phys_ch_process_data_le:
  "length (data (fst (snd (tetrapol_phys_ch_process X phys_ch tr)))) \<le> length (data phys_ch)"
proof -
  obtain c1 t1 where s: "process_sync phys_ch tr = (c1, t1)"
    by (cases "process_sync phys_ch tr")
  have c1: "length (data c1) \<le> length (data phys_ch)"
    using process_sync_fields(1) [of phys_ch tr] s by simp
  obtain r c2 t2 where l: "frame_loop X c1 t1 = (r, c2, t2)"
    by (cases "frame_loop X c1 t1")
  have "length (data c2) \<le> length (data c1)"
    using frame_loop_data_le [of X c1 t1] l by simp
  with c1 show ?thesis
    by (simp add: tetrapol_phys_ch_process_def s l)
qed


lemma cmp_frame_sync_zeros: "7 < n \<Longrightarrow> cmp_frame_sync (replicate n 0) = 4"
  by (simp add: cmp_frame_sync_def frame_dsync_def)

lemma total_after_eq: "total_after k t = 2 ^ k * (t + 1) - 1"
  by (induction k arbitrary: t) (simp_all add: algebra_simps)

lemma total_after_ge: "0 \<le> t \<Longrightarrow> t \<le> total_after k t"
proof (induction k arbitrary: t)
  case 0
  show ?case by simp
next
  case (Suc k)
  have "1 + 2 * t \<le> total_after k (1 + 2 * t)"
    using Suc.prems by (intro Suc.IH) simp
  then show ?case
    using Suc.prems by simp
qed

lemma detect_scr_sync_fields:
  "last_sync_err (fst (detect_scr X phys_ch f tr)) = last_sync_err phys_ch"
  "total_sync_err (fst (detect_scr X phys_ch f tr)) = total_sync_err phys_ch"
  "has_frame_sync (fst (detect_scr X phys_ch f tr)) = has_frame_sync phys_ch"
  by (simp_all add: detect_scr_def Let_def split: prod.splits)

lemma process_frame_sync_fields:
  assumes "process_frame X phys_ch f tr = (r, phys_ch1, f', tr')"
  shows "last_sync_err phys_ch1 = last_sync_err phys_ch"
    and "total_sync_err phys_ch1 = total_sync_err phys_ch"
    and "has_frame_sync phys_ch1 = has_frame_sync phys_ch"
  using assms detect_scr_sync_fields [of X phys_ch f tr]
  by (auto simp: process_frame_def Let_def split: prod.splits if_splits)

lemma frame_loop_sync_lost_iff:
  assumes "total_sync_err phys_ch < 160"
  shows "has_frame_sync (fst (snd (frame_loop X phys_ch tr))) = has_frame_sync phys_ch
       \<and> ((fst (frame_loop X phys_ch tr) = 0
             \<and> total_sync_err (fst (snd (frame_loop X phys_ch tr))) < 160)
          \<or> (fst (frame_loop X phys_ch tr) = -1
             \<and> total_sync_err (fst (snd (frame_loop X phys_ch tr))) \<ge> 160))"
  using assms
proof (induction phys_ch tr rule: frame_loop_cases_induct [where X = X])
  case (stop phys_ch tr r phys_ch1)
  then show ?case
    by (cases phys_ch rule: get_frame_cases) (auto simp: frame_loop_stop)
next
  case (step phys_ch tr phys_ch1 fr r' phys_ch2 fr' tr')
  have 1: "total_sync_err phys_ch1 < 160 \<and> has_frame_sync phys_ch1 = has_frame_sync phys_ch"
    using step(1,4) by (cases phys_ch rule: get_frame_cases) (auto split: if_splits)
  show ?case
    using step(3) 1 process_frame_sync_fields [OF step(2)]
    by (simp add: frame_loop_step [OF step(1) step(2)] split: if_splits)
qed

lemma frame_loop_failing_run:
  assumes "sum_test_fails_run (last_sync_err phys_ch) (data phys_ch) k"
    and "160 * k \<le> length (data phys_ch)"
    and "0 \<le> total_sync_err phys_ch"
  shows "(total_after k (total_sync_err phys_ch) < 160 \<and> length (data phys_ch) < 160 * (k + 1) \<longrightarrow>
           fst (frame_loop X phys_ch tr) = 0
           \<and> total_sync_err (fst (snd (frame_loop X phys_ch tr)))
               = total_after k (total_sync_err phys_ch)
           \<and> data (fst (snd (frame_loop X phys_ch tr))) = drop (160 * k) (data phys_ch))
       \<and> (0 < k \<and> total_after (k - 1) (total_sync_err phys_ch) < 160
            \<and> 160 \<le> total_after k (total_sync_err phys_ch) \<longrightarrow>
           fst (frame_loop X phys_ch tr) = -1
           \<and> total_sync_err (fst (snd (frame_loop X phys_ch tr)))
               = total_after k (total_sync_err phys_ch)
           \<and> data (fst (snd (frame_loop X phys_ch tr))) = drop (160 * (k - 1)) (data phys_ch))"
  using assms
proof (induction k arbitrary: phys_ch tr)
  case 0
  then show ?case
    by (auto simp: get_frame_short frame_loop_stop)
next
  case (Suc k)
  let ?t = "total_sync_err phys_ch"
  have fail: "cmp_frame_sync (data phys_ch) + last_sync_err phys_ch > 1"
    and rest: "sum_test_fails_run (cmp_frame_sync (data phys_ch)) (drop 160 (data phys_ch)) k"
    and len: "160 \<le> length (data phys_ch)" "160 * k \<le> length (drop 160 (data phys_ch))"
    using Suc.prems by simp_all
  show ?case
  proof (cases phys_ch rule: get_frame_cases)
    case short
    with len show ?thesis by simp
  next
    case lost
    have ge: "1 + 2 * ?t \<le> total_after k (1 + 2 * ?t)"
      using Suc.prems(3) by (intro total_after_ge) simp
    have "k = 0" if "total_after (Suc k - 1) ?t < 160"
    proof (rule ccontr)
      assume "k \<noteq> 0"
      then obtain j where "k = Suc j" by (cases k) auto
      with that have "total_after j (1 + 2 * ?t) < 160" by simp
      moreover have "1 + 2 * ?t \<le> total_after j (1 + 2 * ?t)"
        using Suc.prems(3) by (intro total_after_ge) simp
      ultimately show False using lost(3) by simp
    qed
    then show ?thesis
      using lost ge by (auto simp: frame_loop_stop)
  next
    case (frame phys_ch1 fr)
    obtain r' phys_ch2 fr' tr' where p: "process_frame X phys_ch1 fr tr = (r', phys_ch2, fr', tr')"
      by (cases "process_frame X phys_ch1 fr tr") auto
    let ?next = "if f_frame_no fr' \<noteq> FRAME_NO_UNKNOWN
               then phys_ch2\<lparr> frame_no := (f_frame_no fr' + 1) smod 200 \<rparr> else phys_ch2"
    have loop: "frame_loop X phys_ch tr = frame_loop X ?next tr'"
      by (rule frame_loop_step [OF frame(2) p])
    have n: "data ?next = drop 160 (data phys_ch)"
      "last_sync_err ?next = cmp_frame_sync (data phys_ch)"
      "total_sync_err ?next = 1 + 2 * ?t"
      using frame fail process_frame_sync_fields [OF p] process_frame_data [OF p] by simp_all
    have ih: "(total_after k (1 + 2 * ?t) < 160 \<and> length (data phys_ch) - 160 < 160 * (k + 1) \<longrightarrow>
           fst (frame_loop X ?next tr') = 0
           \<and> total_sync_err (fst (snd (frame_loop X ?next tr'))) = total_after k (1 + 2 * ?t)
           \<and> data (fst (snd (frame_loop X ?next tr'))) = drop (160 * k) (drop 160 (data phys_ch)))
       \<and> (0 < k \<and> total_after (k - 1) (1 + 2 * ?t) < 160
            \<and> 160 \<le> total_after k (1 + 2 * ?t) \<longrightarrow>
           fst (frame_loop X ?next tr') = -1
           \<and> total_sync_err (fst (snd (frame_loop X ?next tr'))) = total_after k (1 + 2 * ?t)
           \<and> data (fst (snd (frame_loop X ?next tr'))) = drop (160 * (k - 1)) (drop 160 (data phys_ch)))"
      using Suc.IH [of ?next tr'] rest len(2) Suc.prems(3) n
      by (simp del: sum_test_fails_run.simps total_after.simps)
    have small: "1 + 2 * ?t < 160"
      using frame(8) fail by simp
    have k0: "0 < k" if "160 \<le> total_after (Suc k) ?t"
      using that small by (cases k) auto
    have pred: "total_after (Suc k - 1) ?t = total_after (k - 1) (1 + 2 * ?t)" if "0 < k"
      using that by (cases k) auto
    have drop: "drop (160 * (k - 1)) (drop 160 (data phys_ch)) = drop (160 * (Suc k - 1)) (data phys_ch)"
      if "0 < k"
      using that by (cases k) (auto simp: add.commute)
    show ?thesis
    proof (intro conjI impI)
      assume a: "total_after (Suc k) ?t < 160 \<and> length (data phys_ch) < 160 * (Suc k + 1)"
      then have "total_after k (1 + 2 * ?t) < 160 \<and> length (data phys_ch) - 160 < 160 * (k + 1)"
        using len by auto
      with ih show "fst (frame_loop X phys_ch tr) = 0"
        and "total_sync_err (fst (snd (frame_loop X phys_ch tr))) = total_after (Suc k) ?t"
        and "data (fst (snd (frame_loop X phys_ch tr))) = drop (160 * Suc k) (data phys_ch)"
        by (simp_all add: loop add.commute)
    next
      assume a: "0 < Suc k \<and> total_after (Suc k - 1) ?t < 160 \<and> 160 \<le> total_after (Suc k) ?t"
      then have k: "0 < k" using k0 by simp
      with a pred have "0 < k \<and> total_after (k - 1) (1 + 2 * ?t) < 160
            \<and> 160 \<le> total_after k (1 + 2 * ?t)"
        by simp
      with ih drop [OF k] show "fst (frame_loop X phys_ch tr) = -1"
        and "total_sync_err (fst (snd (frame_loop X phys_ch tr))) = total_after (Suc k) ?t"
        and "data (fst (snd (frame_loop X phys_ch tr))) = drop (160 * (Suc k - 1)) (data phys_ch)"
        by (simp_all add: loop)
    qed
  qed
qed

lemma process_synced:
  "has_frame_sync phys_ch \<Longrightarrow>
   tetrapol_phys_ch_process X phys_ch tr =
     (if fst (frame_loop X phys_ch tr) = 0 then (0, snd (frame_loop X phys_ch tr))
      else (0, (fst (snd (frame_loop X phys_ch tr)))\<lparr> has_frame_sync := False \<rparr>,
            snd (snd (frame_loop X phys_ch tr)) @ [Frame_sync_lost]))"
  by (simp add: tetrapol_phys_ch_process_def process_sync_def Let_def split: prod.splits)

lemma process_synced_lost_iff:
  assumes "has_frame_sync phys_ch" and "total_sync_err phys_ch < 160"
  shows "\<not> has_frame_sync (fst (snd (tetrapol_phys_ch_process X phys_ch tr)))
         \<longleftrightarrow> 160 \<le> total_sync_err (fst (snd (tetrapol_phys_ch_process X phys_ch tr)))"
  using frame_loop_sync_lost_iff [OF assms(2), of X tr] assms(1)
  by (auto simp: process_synced)

lemma process_failing_run:
  assumes "has_frame_sync phys_ch" and "total_sync_err phys_ch = 0"
    and "sum_test_fails_run (last_sync_err phys_ch) (data phys_ch) k"
    and "160 * k \<le> length (data phys_ch)"
  shows "k \<le> 7 \<and> length (data phys_ch) < 160 * (k + 1) \<longrightarrow>
           total_sync_err (fst (snd (tetrapol_phys_ch_process X phys_ch tr))) = 2 ^ k - 1
           \<and> has_frame_sync (fst (snd (tetrapol_phys_ch_process X phys_ch tr)))
           \<and> data (fst (snd (tetrapol_phys_ch_process X phys_ch tr))) = drop (160 * k) (data phys_ch)"
    and "k = 8 \<longrightarrow>
           total_sync_err (fst (snd (tetrapol_phys_ch_process X phys_ch tr))) = 255
           \<and> \<not> has_frame_sync (fst (snd (tetrapol_phys_ch_process X phys_ch tr)))
           \<and> data (fst (snd (tetrapol_phys_ch_process X phys_ch tr))) = drop (160 * 7) (data phys_ch)"
proof -
  note run = frame_loop_failing_run [OF assms(3,4), of X tr, unfolded assms(2) total_after_eq]
  have hfs: "has_frame_sync (fst (snd (frame_loop X phys_ch tr)))"
    using frame_loop_sync_lost_iff [of phys_ch X tr] assms(1,2) by simp
  show "k \<le> 7 \<and> length (data phys_ch) < 160 * (k + 1) \<longrightarrow>
           total_sync_err (fst (snd (tetrapol_phys_ch_process X phys_ch tr))) = 2 ^ k - 1
           \<and> has_frame_sync (fst (snd (tetrapol_phys_ch_process X phys_ch tr)))
           \<and> data (fst (snd (tetrapol_phys_ch_process X phys_ch tr))) = drop (160 * k) (data phys_ch)"
  proof
    assume a: "k \<le> 7 \<and> length (data phys_ch) < 160 * (k + 1)"
    then have "(2::int) ^ k \<le> 2 ^ 7"
      by (intro power_increasing) simp_all
    then have "(2::int) ^ k * (0 + 1) - 1 < 160"
      by simp
    with run a hfs show "total_sync_err (fst (snd (tetrapol_phys_ch_process X phys_ch tr))) = 2 ^ k - 1
           \<and> has_frame_sync (fst (snd (tetrapol_phys_ch_process X phys_ch tr)))
           \<and> data (fst (snd (tetrapol_phys_ch_process X phys_ch tr))) = drop (160 * k) (data phys_ch)"
      by (simp add: process_synced [OF assms(1)])
  qed
  show "k = 8 \<longrightarrow>
           total_sync_err (fst (snd (tetrapol_phys_ch_process X phys_ch tr))) = 255
           \<and> \<not> has_frame_sync (fst (snd (tetrapol_phys_ch_process X phys_ch tr)))
           \<and> data (fst (snd (tetrapol_phys_ch_process X phys_ch tr))) = drop (160 * 7) (data phys_ch)"
    using run by (simp add: process_synced [OF assms(1)])
qed

lemma zeros_fail_run:
  "0 \<le> l \<Longrightarrow> 160 * k \<le> n \<Longrightarrow> sum_test_fails_run l (replicate n 0) k"
proof (induction k arbitrary: l n)
  case 0
  show ?case by simp
next
  case (Suc k)
  then have "160 * k \<le> n - 160" and "7 < n"
    by simp_all
  with Suc.IH [of 4 "n - 160"] Suc.prems(1) show ?case
    by (simp add: cmp_frame_sync_zeros)
qed

lemma eight_bad_frames_run:
  "sum_test_fails_run (last_sync_err eight_bad_frames_ch) (data eight_bad_frames_ch) 8"
  by (simp add: eight_bad_frames_ch_def tetrapol_phys_ch_create_def zeros_fail_run)

lemma find_frame_sync_loop_find:
  assumes "1 < e"
  shows "case find (\<lambda>offs. cmp_frame_sync (drop offs d) + cmp_frame_sync (drop (offs + 160) d) \<le> 1)
                [offs..<length d - 168] of
           Some q \<Rightarrow> fst (find_frame_sync_loop d offs e) = q \<and> snd (find_frame_sync_loop d offs e) \<le> 1
         | None \<Rightarrow> fst (find_frame_sync_loop d offs e) = max offs (length d - 168)
                    \<and> 1 < snd (find_frame_sync_loop d offs e)"
  using assms
proof (induction d offs e rule: find_frame_sync_loop.induct)
  case (1 d offs e)
  let ?P = "\<lambda>offs. cmp_frame_sync (drop offs d) + cmp_frame_sync (drop (offs + 160) d) \<le> 1"
  show ?case
  proof (cases "offs + 168 < length d")
    case False
    then have "[offs..<length d - 168] = []" by simp
    with False "1.prems" show ?thesis
      by (subst (1 2 3 4) find_frame_sync_loop.simps) (auto simp: max_def)
  next
    case True
    then have upt: "[offs..<length d - 168] = offs # [Suc offs..<length d - 168]"
      by (simp add: upt_conv_Cons)
    show ?thesis
    proof (cases "?P offs")
      case P: True
      with True show ?thesis
        unfolding upt by (subst (1 2) find_frame_sync_loop.simps) (simp add: Let_def)
    next
      case P: False
      let ?e = "cmp_frame_sync (drop offs d) + cmp_frame_sync (drop (offs + 160) d)"
      have loop: "find_frame_sync_loop d offs e = find_frame_sync_loop d (offs + 1) ?e"
        using True P by (subst find_frame_sync_loop.simps) (simp add: Let_def)
      have "case find ?P [offs + 1..<length d - 168] of
           Some q \<Rightarrow> fst (find_frame_sync_loop d (offs + 1) ?e) = q
                     \<and> snd (find_frame_sync_loop d (offs + 1) ?e) \<le> 1
         | None \<Rightarrow> fst (find_frame_sync_loop d (offs + 1) ?e) = max (offs + 1) (length d - 168)
                    \<and> 1 < snd (find_frame_sync_loop d (offs + 1) ?e)"
        using True P by (intro "1.IH") simp_all
      moreover have "max (offs + 1) (length d - 168) = max offs (length d - 168)"
        using True by simp
      ultimately show ?thesis
        unfolding upt loop using P by (simp split: option.splits)
    qed
  qed
qed

lemma find_frame_sync_first:
  "find_frame_sync phys_ch =
     (case first_sync_offset (data phys_ch) of
        Some q \<Rightarrow> (1, phys_ch\<lparr> data := drop q (data phys_ch), last_sync_err := 0,
                               total_sync_err := 0 \<rparr>)
      | None \<Rightarrow> (0, phys_ch\<lparr> data := drop (length (data phys_ch) - 168) (data phys_ch) \<rparr>))"
  using find_frame_sync_loop_find [of 2 "data phys_ch" 0]
  by (auto simp: find_frame_sync_def first_sync_offset_def Let_def
           split: option.splits prod.splits)

lemma first_sync_offset_Some:
  "first_sync_offset d = Some q \<longleftrightarrow>
     q + 168 < length d
     \<and> cmp_frame_sync (drop q d) + cmp_frame_sync (drop (q + 160) d) \<le> 1
     \<and> (\<forall>q'<q. 1 < cmp_frame_sync (drop q' d) + cmp_frame_sync (drop (q' + 160) d))"
proof -
  let ?P = "\<lambda>offs. cmp_frame_sync (drop offs d) + cmp_frame_sync (drop (offs + 160) d) \<le> 1"
  have "find ?P [0..<length d - 168] = Some q \<longleftrightarrow>
          q < length d - 168 \<and> ?P q \<and> (\<forall>j<q. \<not> ?P j)"
  proof
    assume "find ?P [0..<length d - 168] = Some q"
    then obtain i where i: "i < length [0..<length d - 168]" "?P ([0..<length d - 168] ! i)"
      "q = [0..<length d - 168] ! i" "\<forall>j<i. \<not> ?P ([0..<length d - 168] ! j)"
      unfolding find_Some_iff by blast
    from i(1,3) have qi: "q = i" "i < length d - 168" by simp_all
    have "\<not> ?P j" if "j < q" for j
      using i(4) [rule_format, of j] that qi by simp
    with i(2) qi show "q < length d - 168 \<and> ?P q \<and> (\<forall>j<q. \<not> ?P j)"
      by simp
  next
    assume a: "q < length d - 168 \<and> ?P q \<and> (\<forall>j<q. \<not> ?P j)"
    have "q < length [0..<length d - 168] \<and> ?P ([0..<length d - 168] ! q)
          \<and> q = [0..<length d - 168] ! q \<and> (\<forall>j<q. \<not> ?P ([0..<length d - 168] ! j))"
      using a by simp
    then show "find ?P [0..<length d - 168] = Some q"
      unfolding find_Some_iff by blast
  qed
  then show ?thesis
    by (simp add: first_sync_offset_def less_diff_conv not_le)
qed

lemma first_sync_offset_None:
  "first_sync_offset d = None \<longleftrightarrow>
     (\<forall>q. q + 168 < length d \<longrightarrow>
        1 < cmp_frame_sync (drop q d) + cmp_frame_sync (drop (q + 160) d))"
  unfolding first_sync_offset_def find_None_iff
  by (auto simp: not_le less_diff_conv)

lemma process_sync_synced:
  "has_frame_sync phys_ch \<Longrightarrow> process_sync phys_ch tr = (phys_ch, tr)"
  by (simp add: process_sync_def)

lemma unsynced_ch_offset:
  "3 + FRAME_LEN + FRAME_HDR_LEN < length (data unsynced_ch)
      \<and> cmp_frame_sync (drop 3 (data unsynced_ch))
          + cmp_frame_sync (drop (3 + FRAME_LEN) (data unsynced_ch)) \<le> MAX_FRAME_SYNC_ERR
      \<and> (\<forall>q'<3. MAX_FRAME_SYNC_ERR
             < cmp_frame_sync (drop q' (data unsynced_ch))
               + cmp_frame_sync (drop (q' + FRAME_LEN) (data unsynced_ch)))"
proof -
  have c: "0 \<le> cmp_frame_sync d" for d
    by (simp add: cmp_frame_sync_def frame_dsync_def)
  have z: "cmp_frame_sync (drop 3 (data unsynced_ch)) = 0"
    "cmp_frame_sync (drop (3 + 160) (data unsynced_ch)) = 0"
    and b: "1 < cmp_frame_sync (drop 0 (data unsynced_ch))"
    "1 < cmp_frame_sync (drop 1 (data unsynced_ch))"
    "1 < cmp_frame_sync (drop 2 (data unsynced_ch))"
    by (simp_all add: unsynced_ch_def sync_header_def cmp_frame_sync_def frame_dsync_def
          nth_append)
  have "1 < cmp_frame_sync (drop q' (data unsynced_ch))
             + cmp_frame_sync (drop (q' + 160) (data unsynced_ch))" if "q' < 3" for q'
  proof -
    from that have "q' = 0 \<or> q' = 1 \<or> q' = 2" by arith
    then have "1 < cmp_frame_sync (drop q' (data unsynced_ch))"
      using b by auto
    with c [of "drop (q' + 160) (data unsynced_ch)"] show ?thesis
      by simp
  qed
  moreover have "length (data unsynced_ch) = 173"
    by (simp add: unsynced_ch_def sync_header_def)
  ultimately show ?thesis
    using z by simp
qed

lemma channel_decoder_fold:
  "fold (\<lambda>i (res, err, errs).
             let r = GET_IN inp n (2 * i) 2 XOR GET_IN inp n (2 * i) 3;
                 e = (GET_IN inp n (2 * i) 5 XOR GET_IN inp n (2 * i) 6)
                       XOR GET_IN inp n (2 * i) 7;
                 e' = e XOR r
             in (res @ [r], err @ [e'], errs + uint e'))
       [0..<m] (r0, e0, s0)
   = (r0 @ map (\<lambda>i. GET_IN inp n (2 * i) 2 XOR GET_IN inp n (2 * i) 3) [0..<m],
      e0 @ map (\<lambda>i. ((GET_IN inp n (2 * i) 5 XOR GET_IN inp n (2 * i) 6)
                       XOR GET_IN inp n (2 * i) 7)
                     XOR (GET_IN inp n (2 * i) 2 XOR GET_IN inp n (2 * i) 3)) [0..<m],
      s0 + (\<Sum>i\<leftarrow>[0..<m]. uint (((GET_IN inp n (2 * i) 5 XOR GET_IN inp n (2 * i) 6)
                       XOR GET_IN inp n (2 * i) 7)
                     XOR (GET_IN inp n (2 * i) 2 XOR GET_IN inp n (2 * i) 3))))"
  by (induction m) (simp_all add: Let_def)

lemma channel_decoder_eq:
  "channel_decoder inp n
   = (map (\<lambda>i. GET_IN inp n (2 * i) 2 XOR GET_IN inp n (2 * i) 3) [0..<n],
      map (\<lambda>i. ((GET_IN inp n (2 * i) 5 XOR GET_IN inp n (2 * i) 6)
                       XOR GET_IN inp n (2 * i) 7)
                     XOR (GET_IN inp n (2 * i) 2 XOR GET_IN inp n (2 * i) 3)) [0..<n],
      (\<Sum>i\<leftarrow>[0..<n]. uint (((GET_IN inp n (2 * i) 5 XOR GET_IN inp n (2 * i) 6)
                       XOR GET_IN inp n (2 * i) 7)
                     XOR (GET_IN inp n (2 * i) 2 XOR GET_IN inp n (2 * i) 3))))"
  unfolding channel_decoder_def channel_decoder_fold by simp

lemma channel_decoder_facts:
  "length (fst (channel_decoder inp n)) = n"
  "length (fst (snd (channel_decoder inp n))) = n"
  "snd (snd (channel_decoder inp n)) = sum_list (map uint (fst (snd (channel_decoder inp n))))"
  "0 \<le> snd (snd (channel_decoder inp n))"
  "i < n \<Longrightarrow> fst (channel_decoder inp n) ! i
     = inp ! ((2 * i + 2) mod (2 * n)) XOR inp ! ((2 * i + 3) mod (2 * n))"
  "i < n \<Longrightarrow> fst (snd (channel_decoder inp n)) ! i
     = fst (channel_decoder inp n) ! i XOR inp ! ((2 * i + 5) mod (2 * n))
        XOR inp ! ((2 * i + 6) mod (2 * n)) XOR inp ! ((2 * i + 7) mod (2 * n))"
proof -
  show "length (fst (channel_decoder inp n)) = n"
    "length (fst (snd (channel_decoder inp n))) = n"
    by (simp_all add: channel_decoder_eq)
  show s: "snd (snd (channel_decoder inp n))
      = sum_list (map uint (fst (snd (channel_decoder inp n))))"
    by (simp add: channel_decoder_eq comp_def)
  show "0 \<le> snd (snd (channel_decoder inp n))"
    unfolding s by (rule sum_list_nonneg) auto
  show "i < n \<Longrightarrow> fst (channel_decoder inp n) ! i
     = inp ! ((2 * i + 2) mod (2 * n)) XOR inp ! ((2 * i + 3) mod (2 * n))"
    by (simp add: channel_decoder_eq GET_IN_def)
  show "i < n \<Longrightarrow> fst (snd (channel_decoder inp n)) ! i
     = fst (channel_decoder inp n) ! i XOR inp ! ((2 * i + 5) mod (2 * n))
        XOR inp ! ((2 * i + 6) mod (2 * n)) XOR inp ! ((2 * i + 7) mod (2 * n))"
    by (simp add: channel_decoder_eq GET_IN_def ac_simps)
qed

lemma frame_decode_data_eq:
  "frame_decode_data f =
     (snd (snd (channel_decoder (f_data f) 26)) + snd (snd (channel_decoder (drop 52 (f_data f)) 50)),
      \<lparr> df_frame_no = f_frame_no f,
        df_data = fst (channel_decoder (f_data f) 26) @ fst (channel_decoder (drop 52 (f_data f)) 50),
        df_err = fst (snd (channel_decoder (f_data f) 26))
                 @ fst (snd (channel_decoder (drop 52 (f_data f)) 50)) \<rparr>)"
  by (simp add: frame_decode_data_def split: prod.splits)

lemma frame_decode_data_nonneg: "0 \<le> fst (frame_decode_data f)"
  using channel_decoder_facts(4) [of "f_data f" 26]
    channel_decoder_facts(4) [of "drop 52 (f_data f)" 50]
  by (simp add: frame_decode_data_eq)

lemma sum_list_uint_nth:
  "sum_list (map uint xs) = (\<Sum>i<length xs. uint (xs ! i))"
proof -
  have "sum_list (map uint xs) = (\<Sum>i = 0..<length (map uint xs). map uint xs ! i)"
    by (rule sum_list_sum_nth)
  also have "\<dots> = (\<Sum>i<length xs. uint (xs ! i))"
    by (simp add: atLeast0LessThan)
  finally show ?thesis .
qed

lemma scramb_table_length: "length scramb_table = 127"
  by (simp add: scramb_table_def)

lemma scramb_table_seed: "list_all (\<lambda>k. scramb_table ! k = 1) [0..<7]"
  by (simp add: scramb_table_def upt_rec)

lemma scramb_table_lfsr:
  "list_all (\<lambda>k. scramb_table ! k = scramb_table ! (k - 1) XOR scramb_table ! (k - 7)) [7..<127]"
  by (simp add: scramb_table_def upt_rec)

lemma smod_nonneg: "0 \<le> a \<Longrightarrow> nat ((a::int) smod 127) = nat a mod 127"
  by (simp add: smod_int_alt_def sgn_if nat_mod_distrib)

lemma frame_descramble_data:
  assumes "s \<noteq> 0" and "length (f_data f) = 152"
  shows "f_data (frame_descramble f s)
       = map (\<lambda>k. f_data f ! k XOR scramb_table ! nat ((int k + s) smod 127)) [0..<152]"
proof -
  have "fold (\<lambda>k d. d[k := d ! k XOR scramb_table ! nat ((int k + s) smod 127)]) [0..<152] (f_data f)
      = map (\<lambda>k. f_data f ! k XOR scramb_table ! nat ((int k + s) smod 127)) [0..<152]
        @ drop 152 (f_data f)"
    using fold_upd_indep [of 152 "f_data f" "\<lambda>k v. v XOR scramb_table ! nat ((int k + s) smod 127)"]
      assms(2) by simp
  then show ?thesis
    using assms by (simp add: frame_descramble_def)
qed

lemma detect_scr_decode_nonneg: "0 \<le> fst (detect_scr_decode b f k)"
  by (simp add: detect_scr_decode_def Let_def frame_decode_data_nonneg)

lemma detect_scr_update_eq:
  "detect_scr_update X b f k stat = stat[k := scr_score X b f k (stat ! k)]"
proof (cases "k < length stat")
  case True
  then show ?thesis
    using detect_scr_decode_nonneg [of b f k]
    by (auto simp: detect_scr_update_def scr_score_def Let_def max_def split: prod.splits)
next
  case False
  then have "stat[k := v] = stat" for v
    by (simp add: list_update_beyond)
  then show ?thesis
    by (simp add: detect_scr_update_def Let_def split: prod.splits)
qed

lemma detect_scr_stat:
  assumes "length (scr_stat phys_ch) = 128"
  shows "scr_stat (fst (detect_scr X phys_ch f tr))
       = map (\<lambda>k. scr_score X (band phys_ch) f k (scr_stat phys_ch ! k)) [0..<128]"
proof -
  have "fold (detect_scr_update X (band phys_ch) f) [0..<128] (scr_stat phys_ch)
      = fold (\<lambda>k d. d[k := scr_score X (band phys_ch) f k (d ! k)]) [0..<128] (scr_stat phys_ch)"
    by (simp only: detect_scr_update_eq [abs_def])
  also have "\<dots> = map (\<lambda>k. scr_score X (band phys_ch) f k (scr_stat phys_ch ! k)) [0..<128]
                   @ drop 128 (scr_stat phys_ch)"
    using assms by (intro fold_upd_indep) simp
  finally show ?thesis
    using assms by (simp add: detect_scr_def Let_def split: prod.splits)
qed

lemma scr_score_nonneg: "0 \<le> v \<Longrightarrow> 0 \<le> scr_score X b f k v"
  by (simp add: scr_score_def)

lemma detect_scr_ok:
  assumes "scr_stat_ok phys_ch"
  shows "scr_stat_ok (fst (detect_scr X phys_ch f tr))"
proof -
  have len: "length (scr_stat phys_ch) = 128"
    using assms by (simp add: scr_stat_ok_nth)
  have "length (scr_stat (fst (detect_scr X phys_ch f tr))) = 128"
    by (simp only: detect_scr_stat [OF len]) simp
  moreover have "0 \<le> scr_stat (fst (detect_scr X phys_ch f tr)) ! k" if "k < 128" for k
  proof -
    have "scr_stat (fst (detect_scr X phys_ch f tr)) ! k
        = scr_score X (band phys_ch) f k (scr_stat phys_ch ! k)"
      using that by (simp only: detect_scr_stat [OF len] nth_map_upt) simp
    then show ?thesis
      using assms that by (simp add: scr_stat_ok_nth scr_score_nonneg)
  qed
  ultimately show ?thesis
    by (simp add: scr_stat_ok_nth)
qed

lemma process_frame_scr_stat:
  "scr_stat (fst (snd (process_frame X phys_ch f tr)))
   = (if scr phys_ch = PHYS_CH_SCR_DETECT then scr_stat (fst (detect_scr X phys_ch f tr))
      else scr_stat phys_ch)"
  by (simp add: process_frame_def Let_def split: prod.splits)

lemma process_frame_ok:
  assumes "scr_stat_ok phys_ch"
  shows "scr_stat_ok (fst (snd (process_frame X phys_ch f tr)))"
  using assms detect_scr_ok [OF assms, of X f tr] process_frame_scr_stat [of X phys_ch f tr]
  by (simp add: scr_stat_ok_nth)

lemma frame_loop_ok:
  "scr_stat_ok phys_ch \<Longrightarrow> scr_stat_ok (fst (snd (frame_loop X phys_ch tr)))"
proof (induction phys_ch tr rule: frame_loop_cases_induct [where X = X])
  case (stop phys_ch tr r phys_ch1)
  then show ?case
    by (cases phys_ch rule: get_frame_cases) (auto simp: frame_loop_stop scr_stat_ok_nth)
next
  case (step phys_ch tr phys_ch1 fr r' phys_ch2 fr' tr')
  have "scr_stat phys_ch1 = scr_stat phys_ch"
    using step(1) by (cases phys_ch rule: get_frame_cases) auto
  with step(4) have "scr_stat_ok phys_ch1"
    by (simp add: scr_stat_ok_nth)
  then have "scr_stat_ok phys_ch2"
    using process_frame_ok [of phys_ch1 X fr tr] step(2) by simp
  then have "scr_stat_ok (if f_frame_no fr' \<noteq> FRAME_NO_UNKNOWN
        then phys_ch2\<lparr> frame_no := (f_frame_no fr' + 1) smod 200 \<rparr> else phys_ch2)"
    by (simp add: scr_stat_ok_nth)
  then show ?case
    using step(3) by (simp add: frame_loop_step [OF step(1) step(2)])
qed

lemma tetrapol_phys_ch_process_ok:
  assumes "scr_stat_ok phys_ch"
  shows "scr_stat_ok (fst (snd (tetrapol_phys_ch_process X phys_ch tr)))"
proof -
  obtain c1 t1 where s: "process_sync phys_ch tr = (c1, t1)"
    by (cases "process_sync phys_ch tr")
  have c1: "scr_stat_ok c1"
    using process_sync_fields(2) [of phys_ch tr] s assms by (simp add: scr_stat_ok_nth)
  obtain r c2 t2 where l: "frame_loop X c1 t1 = (r, c2, t2)"
    by (cases "frame_loop X c1 t1")
  have "scr_stat_ok c2"
    using frame_loop_ok [OF c1, of X t1] l by simp
  with c1 show ?thesis
    by (simp add: tetrapol_phys_ch_process_def s l scr_stat_ok_nth)
qed

lemma detect_scr_max_fold_inv:
  fixes stat :: "int list"
  defines "step \<equiv> (\<lambda>s (scr_max, scr_max2).
             if stat ! s \<ge> stat ! scr_max then (s, scr_max) else (scr_max, scr_max2))"
    and "init \<equiv> (if stat ! 0 < stat ! 1 then (1, 0) else (0, 1::nat))"
  shows "fst (fold step [2..<2 + j] init) < 2 + j
       \<and> snd (fold step [2..<2 + j] init) < 2 + j
       \<and> fst (fold step [2..<2 + j] init) \<noteq> snd (fold step [2..<2 + j] init)
       \<and> (\<forall>k<2 + j. stat ! k \<le> stat ! fst (fold step [2..<2 + j] init))
       \<and> (\<forall>k<2 + j. fst (fold step [2..<2 + j] init) < k \<and> 2 \<le> k
              \<longrightarrow> stat ! k < stat ! fst (fold step [2..<2 + j] init))
       \<and> (fst (fold step [2..<2 + j] init) = 1 \<longrightarrow> stat ! 0 < stat ! 1)"
proof (induction j)
  case 0
  show ?case
    by (auto simp: init_def dest!: less_2_cases)
next
  case (Suc j)
  obtain m m2 where f: "fold step [2..<2 + j] init = (m, m2)"
    by (cases "fold step [2..<2 + j] init")
  have "[2..<2 + Suc j] = [2..<2 + j] @ [2 + j]"
    by (simp only: add_Suc_right upt_Suc_append le_add1 if_True)
  then have "fold step [2..<2 + Suc j] init = step (2 + j) (fold step [2..<2 + j] init)"
    by (simp only: fold_append fold_simps comp_apply id_apply)
  then have s: "fold step [2..<2 + Suc j] init
         = (if stat ! (2 + j) \<ge> stat ! m then (2 + j, m) else (m, m2))"
    unfolding f by (simp add: step_def)
  note ih = Suc.IH [unfolded f fst_conv snd_conv]
  show ?case
  proof (cases "stat ! (2 + j) \<ge> stat ! m")
    case True
    have "stat ! k \<le> stat ! (2 + j)" if "k < 2 + Suc j" for k
    proof (cases "k = 2 + j")
      case False
      with that have "k < 2 + j" by simp
      with ih have "stat ! k \<le> stat ! m" by blast
      with True show ?thesis by simp
    qed simp
    with True ih show ?thesis
      unfolding s by auto
  next
    case False
    have "stat ! k \<le> stat ! m" if "k < 2 + Suc j" for k
    proof (cases "k = 2 + j")
      case True
      with False show ?thesis by simp
    next
      case False
      with that have "k < 2 + j" by simp
      with ih show ?thesis by blast
    qed
    moreover have "stat ! k < stat ! m" if "k < 2 + Suc j" "m < k" "2 \<le> k" for k
    proof (cases "k = 2 + j")
      case True
      with False show ?thesis by simp
    next
      case False
      with that have "k < 2 + j" by simp
      with ih that show ?thesis by blast
    qed
    ultimately show ?thesis
      unfolding s using False ih by auto
  qed
qed

lemma detect_scr_max_props:
  "fst (detect_scr_max stat) < 128"
  "snd (detect_scr_max stat) < 128"
  "fst (detect_scr_max stat) \<noteq> snd (detect_scr_max stat)"
  "k < 128 \<Longrightarrow> stat ! k \<le> stat ! fst (detect_scr_max stat)"
  "k < 128 \<Longrightarrow> stat ! k = stat ! fst (detect_scr_max stat) \<Longrightarrow>
     k \<le> fst (detect_scr_max stat) \<or> (k = 1 \<and> fst (detect_scr_max stat) = 0)"
proof -
  have "(2::nat) + 126 = 128"
    by simp
  note inv = detect_scr_max_fold_inv [of stat 126, unfolded this, folded detect_scr_max_def]
  show "fst (detect_scr_max stat) < 128" "snd (detect_scr_max stat) < 128"
    "fst (detect_scr_max stat) \<noteq> snd (detect_scr_max stat)"
    using inv by simp_all
  show "k < 128 \<Longrightarrow> stat ! k \<le> stat ! fst (detect_scr_max stat)"
    using inv by simp
  show "k \<le> fst (detect_scr_max stat) \<or> (k = 1 \<and> fst (detect_scr_max stat) = 0)"
    if "k < 128" "stat ! k = stat ! fst (detect_scr_max stat)"
  proof (rule ccontr)
    assume n: "\<not> (k \<le> fst (detect_scr_max stat) \<or> (k = 1 \<and> fst (detect_scr_max stat) = 0))"
    then have gt: "fst (detect_scr_max stat) < k" by simp
    show False
    proof (cases "2 \<le> k")
      case True
      with inv that gt have "stat ! k < stat ! fst (detect_scr_max stat)" by blast
      with that show False by simp
    next
      case False
      with gt n show False by auto
    qed
  qed
qed

lemma detect_scr_result:
  "scr_guess (fst (detect_scr X phys_ch f tr))
     = int (fst (detect_scr_max (scr_stat (fst (detect_scr X phys_ch f tr)))))"
  "scr (fst (detect_scr X phys_ch f tr))
     = (if scr_stat (fst (detect_scr X phys_ch f tr))
             ! fst (detect_scr_max (scr_stat (fst (detect_scr X phys_ch f tr))))
           - scr_confidence phys_ch
           > scr_stat (fst (detect_scr X phys_ch f tr))
             ! snd (detect_scr_max (scr_stat (fst (detect_scr X phys_ch f tr))))
        then int (fst (detect_scr_max (scr_stat (fst (detect_scr X phys_ch f tr)))))
        else scr phys_ch)"
  by (simp_all add: detect_scr_def Let_def split: prod.splits)

lemma detect_scr_all_rejected:
  "scr_stat (fst (detect_scr crc_fail_externs fresh_ch f tr)) = replicate 128 0"
proof -
  have len: "length (scr_stat fresh_ch) = 128"
    by (simp add: fresh_ch_def tetrapol_phys_ch_create_def)
  have "scr_score crc_fail_externs b f k (scr_stat fresh_ch ! k) = 0" if "k < 128" for b k
    using that by (simp add: scr_score_def crc_fail_externs_def fresh_ch_def
        tetrapol_phys_ch_create_def)
  then have "map (\<lambda>k. scr_score crc_fail_externs (band fresh_ch) f k (scr_stat fresh_ch ! k))
               [0..<128] = map (\<lambda>k. 0) [0..<128]"
    by (intro map_cong refl) (simp only: set_upt atLeastLessThan_iff)
  then show ?thesis
    by (simp only: detect_scr_stat [OF len] map_replicate_const length_upt) simp
qed

text \<open>
  The second key of the search is not always the runner-up: with the scores 10, 0, 5
  and 0 for all other keys, the loop ends with \<open>scr_max = 0\<close> and \<open>scr_max2 = 1\<close>,
  whose score is 0, although key 2 has the score 5.
\<close>

lemma detect_scr_max_second_not_runner_up:
  "detect_scr_max ([10, 0, 5] @ replicate 125 0) = (0, 1)"
  by (simp add: detect_scr_max_def upt_rec nth_append)

lemma detect_scr_max_fold_inv2:
  fixes stat :: "int list"
  defines "step \<equiv> (\<lambda>s (scr_max, scr_max2).
             if stat ! s \<ge> stat ! scr_max then (s, scr_max) else (scr_max, scr_max2))"
    and "init \<equiv> (if stat ! 0 < stat ! 1 then (1, 0) else (0, 1::nat))"
  shows "snd (fold step [2..<2 + j] init) \<in> set (visited_before (fst (fold step [2..<2 + j] init)))
       \<and> (\<forall>i\<in>set (visited_before (fst (fold step [2..<2 + j] init))).
             stat ! i \<le> stat ! snd (fold step [2..<2 + j] init))"
proof (induction j)
  case 0
  show ?case
    by (simp add: init_def visited_before_def)
next
  case (Suc j)
  obtain m m2 where f: "fold step [2..<2 + j] init = (m, m2)"
    by (cases "fold step [2..<2 + j] init")
  have "[2..<2 + Suc j] = [2..<2 + j] @ [2 + j]"
    by (simp only: add_Suc_right upt_Suc_append le_add1 if_True)
  then have "fold step [2..<2 + Suc j] init = step (2 + j) (fold step [2..<2 + j] init)"
    by (simp only: fold_append fold_simps comp_apply id_apply)
  then have s: "fold step [2..<2 + Suc j] init
         = (if stat ! (2 + j) \<ge> stat ! m then (2 + j, m) else (m, m2))"
    unfolding f by (simp add: step_def)
  note ih = Suc.IH [unfolded f fst_conv snd_conv]
  note inv = detect_scr_max_fold_inv [of stat j, folded step_def init_def, unfolded f fst_conv snd_conv]
  show ?case
  proof (cases "stat ! (2 + j) \<ge> stat ! m")
    case True
    have "m < 2 + j" and "\<forall>k<2 + j. stat ! k \<le> stat ! m"
      using inv by simp_all
    with True show ?thesis
      unfolding s by (auto simp: visited_before_def)
  next
    case False
    with ih show ?thesis
      unfolding s by simp
  qed
qed

lemma detect_scr_max_second:
  "fst (detect_scr_max stat) = 1 \<Longrightarrow> stat ! 0 < stat ! 1"
  "snd (detect_scr_max stat) \<in> set (visited_before (fst (detect_scr_max stat)))"
  "j \<in> set (visited_before (fst (detect_scr_max stat))) \<Longrightarrow>
     stat ! j \<le> stat ! snd (detect_scr_max stat)"
proof -
  have n: "(2::nat) + 126 = 128"
    by simp
  note inv = detect_scr_max_fold_inv [of stat 126, unfolded n, folded detect_scr_max_def]
  note inv2 = detect_scr_max_fold_inv2 [of stat 126, unfolded n, folded detect_scr_max_def]
  show "fst (detect_scr_max stat) = 1 \<Longrightarrow> stat ! 0 < stat ! 1"
    using inv by simp
  show "snd (detect_scr_max stat) \<in> set (visited_before (fst (detect_scr_max stat)))"
    using inv2 by simp
  show "j \<in> set (visited_before (fst (detect_scr_max stat))) \<Longrightarrow>
     stat ! j \<le> stat ! snd (detect_scr_max stat)"
    using inv2 by blast
qed

lemma runner_up_ge:
  assumes "k < 128" and "k \<noteq> best"
  shows "stat ! k \<le> runner_up stat best"
  unfolding runner_up_def using assms by (intro Max_ge) auto

lemma runner_up_le:
  assumes "\<And>k. k < 128 \<Longrightarrow> k \<noteq> best \<Longrightarrow> stat ! k \<le> v"
  shows "runner_up stat best \<le> v"
  unfolding runner_up_def
proof (rule Max.boundedI)
  show "finite (set (map ((!) stat) (filter (\<lambda>k. k \<noteq> best) [0..<128])))"
    by simp
  have "(if best = 0 then 1 else 0) \<in> set (filter (\<lambda>k. k \<noteq> best) [0..<128])"
    by simp
  then show "set (map ((!) stat) (filter (\<lambda>k. k \<noteq> best) [0..<128])) \<noteq> {}"
    by (metis empty_iff list.set_map image_is_empty)
  fix a assume "a \<in> set (map ((!) stat) (filter (\<lambda>k. k \<noteq> best) [0..<128]))"
  then show "a \<le> v"
    using assms by auto
qed

lemma detect_scr_max_second_bounds:
  "stat ! snd (detect_scr_max stat) \<le> runner_up stat (fst (detect_scr_max stat))"
  "\<exists>j\<in>set (visited_before (fst (detect_scr_max stat))).
      stat ! j = runner_up stat (fst (detect_scr_max stat)) \<Longrightarrow>
   stat ! snd (detect_scr_max stat) = runner_up stat (fst (detect_scr_max stat))"
proof -
  show le: "stat ! snd (detect_scr_max stat) \<le> runner_up stat (fst (detect_scr_max stat))"
    using detect_scr_max_props(2,3) [of stat] by (intro runner_up_ge) simp_all
  assume "\<exists>j\<in>set (visited_before (fst (detect_scr_max stat))).
      stat ! j = runner_up stat (fst (detect_scr_max stat))"
  then obtain j where "j \<in> set (visited_before (fst (detect_scr_max stat)))"
    and "stat ! j = runner_up stat (fst (detect_scr_max stat))"
    by blast
  with detect_scr_max_second(3) [of j stat]
  have "runner_up stat (fst (detect_scr_max stat)) \<le> stat ! snd (detect_scr_max stat)"
    by simp
  with le show "stat ! snd (detect_scr_max stat) = runner_up stat (fst (detect_scr_max stat))"
    by simp
qed

lemma detect_scr_all_failed:
  assumes "length (scr_stat phys_ch) = 128"
  shows "scr_stat (fst (detect_scr crc_fail_externs phys_ch f tr))
       = map (\<lambda>v. max 0 (v - 2)) (scr_stat phys_ch)"
proof -
  have "map (\<lambda>k. scr_score crc_fail_externs (band phys_ch) f k (scr_stat phys_ch ! k)) [0..<128]
      = map (\<lambda>k. max 0 (scr_stat phys_ch ! k - 2)) [0..<length (scr_stat phys_ch)]"
    by (simp only: assms) (simp add: scr_score_def crc_fail_externs_def)
  also have "\<dots> = map (\<lambda>v. max 0 (v - 2)) (map (\<lambda>k. scr_stat phys_ch ! k) [0..<length (scr_stat phys_ch)])"
    by (simp only: map_map comp_def)
  also have "\<dots> = map (\<lambda>v. max 0 (v - 2)) (scr_stat phys_ch)"
    by (simp only: map_nth)
  finally show ?thesis
    by (simp only: detect_scr_stat [OF assms])
qed

lemma commit_ch_stat:
  "scr_stat (fst (detect_scr crc_fail_externs commit_ch f tr)) = (replicate 128 0)[42 := 58]"
proof -
  have "length (scr_stat commit_ch) = 128"
    by (simp add: commit_ch_def)
  then show ?thesis
    by (simp only: detect_scr_all_failed) (simp add: commit_ch_def map_update)
qed

text \<open>
  On the second of these channels, with a frame that every key fails, the scores become
  10, 0, 5: the channel commits to key 0 with \<open>10 - 7 = 3\<close>, although the runner-up,
  key 2, holds the score 5. The search has updated \<open>scr_max2\<close> only when the best key
  changed, short of the source comment "two best SCRs".
\<close>

lemma slip_ch_commit:
  "scr (fst (detect_scr crc_fail_externs slip_ch example_frame [])) = 0
   \<and> scr_stat (fst (detect_scr crc_fail_externs slip_ch example_frame [])) ! 0
       - scr_confidence slip_ch = 3
   \<and> scr_stat (fst (detect_scr crc_fail_externs slip_ch example_frame [])) ! 2 = 5"
proof -
  have len: "length (scr_stat slip_ch) = 128"
    by (simp add: slip_ch_def)
  have st: "scr_stat (fst (detect_scr crc_fail_externs slip_ch example_frame []))
      = [10, 0, 5] @ replicate 125 0"
    by (simp only: detect_scr_all_failed [OF len]) (simp add: slip_ch_def)
  have c: "scr_confidence slip_ch = 7"
    by (simp add: slip_ch_def)
  have "scr (fst (detect_scr crc_fail_externs slip_ch example_frame [])) = 0"
    by (simp only: detect_scr_result(2) st detect_scr_max_second_not_runner_up c fst_conv snd_conv)
      simp
  then show ?thesis
    by (simp only: st c) simp
qed

lemma pipeline_frame_no:
  "f_frame_no (frame_descramble f s) = f_frame_no f"
  "f_frame_no (frame_diff_dec f) = f_frame_no f"
  "f_frame_no (frame_deinterleave f t) = f_frame_no f"
  by (simp_all add: frame_descramble_def frame_diff_dec_def frame_deinterleave_def Let_def)

lemma example_frame_errs: "0 < fst (frame_decode_data example_frame)"
proof -
  let ?e = "fst (snd (channel_decoder (f_data example_frame) 26))"
  let ?e2 = "fst (snd (channel_decoder (drop 52 (f_data example_frame)) 50))"
  have n: "f_data example_frame ! k = of_nat k" if "k < 152" for k
    using that by (simp add: example_frame_def)
  have "?e ! 0 = fst (channel_decoder (f_data example_frame) 26) ! 0
            XOR f_data example_frame ! 5 XOR f_data example_frame ! 6 XOR f_data example_frame ! 7"
    using channel_decoder_facts(6) [of 0 26 "f_data example_frame"] by simp
  also have "fst (channel_decoder (f_data example_frame) 26) ! 0
            = f_data example_frame ! 2 XOR f_data example_frame ! 3"
    using channel_decoder_facts(5) [of 0 26 "f_data example_frame"]
    by (simp add: numeral_2_eq_2 [symmetric])
  finally have e0: "?e ! 0 = 5"
    by (simp add: n)
  have len: "length ?e = 26"
    by (rule channel_decoder_facts(2))
  have "uint (?e ! 0) \<le> (\<Sum>i<length ?e. uint (?e ! i))"
    by (rule member_le_sum) (simp_all add: len)
  then have "5 \<le> sum_list (map uint ?e)"
    by (simp add: sum_list_uint_nth e0)
  then have "5 \<le> snd (snd (channel_decoder (f_data example_frame) 26))"
    by (simp add: channel_decoder_facts(3) [symmetric])
  moreover have "0 \<le> snd (snd (channel_decoder (drop 52 (f_data example_frame)) 50))"
    by (rule channel_decoder_facts(4))
  ultimately show ?thesis
    by (simp add: frame_decode_data_eq)
qed

section \<open>Verified properties\<close>

text \<open>
  C1. Sync acquisition. On a channel without frame sync the driver scans the offsets
  0, 1, 2, ... that satisfy \<open>offs + FRAME_LEN + FRAME_HDR_LEN < data_len\<close>. If \<open>q\<close>
  is the first such offset whose combined error \<open>cmp(q) + cmp(q + FRAME_LEN)\<close> is at
  most 1, exactly the first \<open>q\<close> bits are discarded, \<open>has_frame_sync\<close> becomes
  true, \<open>last_sync_err\<close> and \<open>total_sync_err\<close> become 0, \<open>frame_no\<close> becomes
  \<open>FRAME_NO_UNKNOWN\<close>, \<open>multiblock_reset\<close> and \<open>segmentation_reset\<close> are
  called, and the driver goes on from that state. If no such offset matches, all but
  the last \<open>FRAME_LEN + FRAME_HDR_LEN = 168\<close> bits are discarded (nothing, when the
  buffer holds fewer), nothing else changes, and the driver returns 0 without sync.
\<close>

theorem sync_acquisition:
  assumes "\<not> has_frame_sync phys_ch"
  shows
    "(q + FRAME_LEN + FRAME_HDR_LEN < length (data phys_ch)
      \<and> cmp_frame_sync (drop q (data phys_ch))
          + cmp_frame_sync (drop (q + FRAME_LEN) (data phys_ch)) \<le> MAX_FRAME_SYNC_ERR
      \<and> (\<forall>q'<q. MAX_FRAME_SYNC_ERR
             < cmp_frame_sync (drop q' (data phys_ch))
               + cmp_frame_sync (drop (q' + FRAME_LEN) (data phys_ch))) \<longrightarrow>
        process_sync phys_ch tr
          = (phys_ch\<lparr> data := drop q (data phys_ch), has_frame_sync := True,
                       last_sync_err := 0, total_sync_err := 0,
                       frame_no := FRAME_NO_UNKNOWN \<rparr>,
             tr @ [Frame_sync_found, Multiblock_reset, Segmentation_reset])
        \<and> tetrapol_phys_ch_process X phys_ch tr
          = tetrapol_phys_ch_process X
              (phys_ch\<lparr> data := drop q (data phys_ch), has_frame_sync := True,
                         last_sync_err := 0, total_sync_err := 0,
                         frame_no := FRAME_NO_UNKNOWN \<rparr>)
              (tr @ [Frame_sync_found, Multiblock_reset, Segmentation_reset]))
     \<and> ((\<forall>q. q + FRAME_LEN + FRAME_HDR_LEN < length (data phys_ch) \<longrightarrow>
             MAX_FRAME_SYNC_ERR
             < cmp_frame_sync (drop q (data phys_ch))
               + cmp_frame_sync (drop (q + FRAME_LEN) (data phys_ch))) \<longrightarrow>
        process_sync phys_ch tr
          = (phys_ch\<lparr> data := drop (length (data phys_ch) - (FRAME_LEN + FRAME_HDR_LEN))
                                 (data phys_ch) \<rparr>, tr)
        \<and> tetrapol_phys_ch_process X phys_ch tr
          = (0, phys_ch\<lparr> data := drop (length (data phys_ch) - (FRAME_LEN + FRAME_HDR_LEN))
                                    (data phys_ch) \<rparr>, tr))"
proof (intro conjI impI)
  assume "q + FRAME_LEN + FRAME_HDR_LEN < length (data phys_ch)
      \<and> cmp_frame_sync (drop q (data phys_ch))
          + cmp_frame_sync (drop (q + FRAME_LEN) (data phys_ch)) \<le> MAX_FRAME_SYNC_ERR
      \<and> (\<forall>q'<q. MAX_FRAME_SYNC_ERR
             < cmp_frame_sync (drop q' (data phys_ch))
               + cmp_frame_sync (drop (q' + FRAME_LEN) (data phys_ch)))"
  then have "first_sync_offset (data phys_ch) = Some q"
    by (simp add: first_sync_offset_Some)
  then have f: "find_frame_sync phys_ch
      = (1, phys_ch\<lparr> data := drop q (data phys_ch), last_sync_err := 0, total_sync_err := 0 \<rparr>)"
    by (simp add: find_frame_sync_first)
  let ?c = "phys_ch\<lparr> data := drop q (data phys_ch), has_frame_sync := True,
                       last_sync_err := 0, total_sync_err := 0,
                       frame_no := FRAME_NO_UNKNOWN \<rparr>"
  let ?t = "tr @ [Frame_sync_found, Multiblock_reset, Segmentation_reset]"
  show s: "process_sync phys_ch tr = (?c, ?t)"
    using assms by (simp add: process_sync_def f)
  have "process_sync ?c ?t = (?c, ?t)"
    by (rule process_sync_synced) simp
  with s show "tetrapol_phys_ch_process X phys_ch tr = tetrapol_phys_ch_process X ?c ?t"
    by (simp add: tetrapol_phys_ch_process_def)
next
  assume "\<forall>q. q + FRAME_LEN + FRAME_HDR_LEN < length (data phys_ch) \<longrightarrow>
             MAX_FRAME_SYNC_ERR
             < cmp_frame_sync (drop q (data phys_ch))
               + cmp_frame_sync (drop (q + FRAME_LEN) (data phys_ch))"
  then have "first_sync_offset (data phys_ch) = None"
    by (simp add: first_sync_offset_None)
  then have f: "find_frame_sync phys_ch
      = (0, phys_ch\<lparr> data := drop (length (data phys_ch) - 168) (data phys_ch) \<rparr>)"
    by (simp add: find_frame_sync_first)
  show s: "process_sync phys_ch tr
          = (phys_ch\<lparr> data := drop (length (data phys_ch) - (FRAME_LEN + FRAME_HDR_LEN))
                                 (data phys_ch) \<rparr>, tr)"
    using assms by (simp add: process_sync_def f)
  show "tetrapol_phys_ch_process X phys_ch tr
          = (0, phys_ch\<lparr> data := drop (length (data phys_ch) - (FRAME_LEN + FRAME_HDR_LEN))
                                    (data phys_ch) \<rparr>, tr)"
    using assms by (simp add: tetrapol_phys_ch_process_def s)
qed

theorem sync_acquisition_witness:
  "\<not> has_frame_sync unsynced_ch
   \<and> process_sync unsynced_ch []
       = (unsynced_ch\<lparr> data := drop 3 (data unsynced_ch), has_frame_sync := True,
                          last_sync_err := 0, total_sync_err := 0,
                          frame_no := FRAME_NO_UNKNOWN \<rparr>,
          [Frame_sync_found, Multiblock_reset, Segmentation_reset])"
proof -
  have h: "\<not> has_frame_sync unsynced_ch"
    by (simp add: unsynced_ch_def tetrapol_phys_ch_create_def)
  show ?thesis
    using sync_acquisition [OF h, of 3 "[]"] unsynced_ch_offset h by simp
qed

text \<open>
  C2. Sync tracking and loss. A call of \<open>get_frame\<close> that finds a whole frame sets
  \<open>total_sync_err\<close> to \<open>1 + 2*total_sync_err\<close> when
  \<open>sync_err + last_sync_err > 1\<close> and to 0 otherwise, and it reports the loss of sync
  (-1) exactly when the sum test fails and the updated counter has reached
  \<open>FRAME_LEN = 160\<close>. The driver, started in sync with a counter below 160, ends out
  of sync exactly when the counter has reached 160. Started in sync with counter 0 on a
  buffer of \<open>k\<close> frames that all fail the sum test, the driver ends with counter
  \<open>2^k - 1\<close> and in sync for \<open>k \<le> 7\<close> (the values 1, 3, 7, 15, 31, 63, 127),
  and with counter 255 and out of sync at the eighth frame, which stays in the buffer.
\<close>

theorem sync_tracking_and_loss:
  "(FRAME_LEN \<le> length (data phys_ch) \<longrightarrow>
      total_sync_err (fst (snd (get_frame phys_ch)))
        = (if cmp_frame_sync (data phys_ch) + last_sync_err phys_ch > MAX_FRAME_SYNC_ERR
           then 1 + 2 * total_sync_err phys_ch else 0)
      \<and> (fst (get_frame phys_ch) = -1 \<longleftrightarrow>
           cmp_frame_sync (data phys_ch) + last_sync_err phys_ch > MAX_FRAME_SYNC_ERR
           \<and> int FRAME_LEN \<le> total_sync_err (fst (snd (get_frame phys_ch)))))
   \<and> (has_frame_sync phys_ch \<and> total_sync_err phys_ch < int FRAME_LEN \<longrightarrow>
        (\<not> has_frame_sync (fst (snd (tetrapol_phys_ch_process X phys_ch tr)))
         \<longleftrightarrow> int FRAME_LEN \<le> total_sync_err (fst (snd (tetrapol_phys_ch_process X phys_ch tr)))))
   \<and> (has_frame_sync phys_ch \<and> total_sync_err phys_ch = 0
       \<and> sum_test_fails_run (last_sync_err phys_ch) (data phys_ch) k
       \<and> FRAME_LEN * k \<le> length (data phys_ch) \<longrightarrow>
        (k \<le> 7 \<and> length (data phys_ch) < FRAME_LEN * (k + 1) \<longrightarrow>
           total_sync_err (fst (snd (tetrapol_phys_ch_process X phys_ch tr))) = 2 ^ k - 1
           \<and> has_frame_sync (fst (snd (tetrapol_phys_ch_process X phys_ch tr)))
           \<and> data (fst (snd (tetrapol_phys_ch_process X phys_ch tr)))
               = drop (FRAME_LEN * k) (data phys_ch))
        \<and> (k = 8 \<longrightarrow>
           total_sync_err (fst (snd (tetrapol_phys_ch_process X phys_ch tr))) = 255
           \<and> \<not> has_frame_sync (fst (snd (tetrapol_phys_ch_process X phys_ch tr)))
           \<and> data (fst (snd (tetrapol_phys_ch_process X phys_ch tr)))
               = drop (FRAME_LEN * 7) (data phys_ch)))
   \<and> map (\<lambda>k. 2 ^ k - 1) [1..<9] = [1, 3, 7, 15, 31, 63, 127, 255 :: int]"
proof (intro conjI impI)
  assume "FRAME_LEN \<le> length (data phys_ch)"
  then show "total_sync_err (fst (snd (get_frame phys_ch)))
        = (if cmp_frame_sync (data phys_ch) + last_sync_err phys_ch > MAX_FRAME_SYNC_ERR
           then 1 + 2 * total_sync_err phys_ch else 0)"
    and "fst (get_frame phys_ch) = -1 \<longleftrightarrow>
           cmp_frame_sync (data phys_ch) + last_sync_err phys_ch > MAX_FRAME_SYNC_ERR
           \<and> int FRAME_LEN \<le> total_sync_err (fst (snd (get_frame phys_ch)))"
    by (cases phys_ch rule: get_frame_cases; auto)+
next
  assume "has_frame_sync phys_ch \<and> total_sync_err phys_ch < int FRAME_LEN"
  then show "\<not> has_frame_sync (fst (snd (tetrapol_phys_ch_process X phys_ch tr)))
         \<longleftrightarrow> int FRAME_LEN \<le> total_sync_err (fst (snd (tetrapol_phys_ch_process X phys_ch tr)))"
    using process_synced_lost_iff [of phys_ch X tr] by simp
next
  assume a: "has_frame_sync phys_ch \<and> total_sync_err phys_ch = 0
       \<and> sum_test_fails_run (last_sync_err phys_ch) (data phys_ch) k
       \<and> FRAME_LEN * k \<le> length (data phys_ch)"
    and b: "k \<le> 7 \<and> length (data phys_ch) < FRAME_LEN * (k + 1)"
  then show "total_sync_err (fst (snd (tetrapol_phys_ch_process X phys_ch tr))) = 2 ^ k - 1"
    and "has_frame_sync (fst (snd (tetrapol_phys_ch_process X phys_ch tr)))"
    and "data (fst (snd (tetrapol_phys_ch_process X phys_ch tr))) = drop (FRAME_LEN * k) (data phys_ch)"
    using process_failing_run(1) [of phys_ch k X tr] by simp_all
next
  assume a: "has_frame_sync phys_ch \<and> total_sync_err phys_ch = 0
       \<and> sum_test_fails_run (last_sync_err phys_ch) (data phys_ch) k
       \<and> FRAME_LEN * k \<le> length (data phys_ch)"
    and b: "k = 8"
  then show "total_sync_err (fst (snd (tetrapol_phys_ch_process X phys_ch tr))) = 255"
    and "\<not> has_frame_sync (fst (snd (tetrapol_phys_ch_process X phys_ch tr)))"
    and "data (fst (snd (tetrapol_phys_ch_process X phys_ch tr))) = drop (FRAME_LEN * 7) (data phys_ch)"
    using process_failing_run(2) [of phys_ch k X tr] by simp_all
next
  show "map (\<lambda>k. 2 ^ k - 1) [1..<9] = [1, 3, 7, 15, 31, 63, 127, 255 :: int]"
    by (simp add: upt_rec)
qed

theorem sync_tracking_and_loss_witness:
  "has_frame_sync eight_bad_frames_ch \<and> total_sync_err eight_bad_frames_ch = 0
   \<and> sum_test_fails_run (last_sync_err eight_bad_frames_ch) (data eight_bad_frames_ch) 8
   \<and> FRAME_LEN * 8 \<le> length (data eight_bad_frames_ch)
   \<and> total_sync_err (fst (snd (tetrapol_phys_ch_process crc_fail_externs eight_bad_frames_ch []))) = 255
   \<and> \<not> has_frame_sync (fst (snd (tetrapol_phys_ch_process crc_fail_externs eight_bad_frames_ch [])))"
proof -
  have h: "has_frame_sync eight_bad_frames_ch \<and> total_sync_err eight_bad_frames_ch = 0
       \<and> sum_test_fails_run (last_sync_err eight_bad_frames_ch) (data eight_bad_frames_ch) 8
       \<and> FRAME_LEN * 8 \<le> length (data eight_bad_frames_ch)"
    using eight_bad_frames_run by (simp add: eight_bad_frames_ch_def tetrapol_phys_ch_create_def)
  then show ?thesis
    using sync_tracking_and_loss [of eight_bad_frames_ch crc_fail_externs "[]" 8] by simp
qed

text \<open>
  C3. Convolutional decode. For every frame of 152 deinterleaved bits the decoder
  produces 76 output bits and 76 erasure flags in two segments: output bit \<open>i < 26\<close> is
  \<open>in[2i+2] XOR in[2i+3]\<close> with the indices taken modulo 52 in \<open>in[0..51]\<close>, output
  bit \<open>26 + i\<close>, \<open>i < 50\<close>, is the same with the indices taken modulo 100 in
  \<open>in[52..151]\<close>; the erasure flag is
  \<open>err[i] = res[i] XOR in[2i+5] XOR in[2i+6] XOR in[2i+7]\<close> with the same indexing; and
  the returned error count is the sum of the 76 erasure flags.
\<close>

theorem frame_decode_data_spec:
  assumes "length (f_data f) = FRAME_DATA_LEN"
  shows "length (df_data (snd (frame_decode_data f))) = 76
       \<and> length (df_err (snd (frame_decode_data f))) = 76
       \<and> (\<forall>i<26.
            df_data (snd (frame_decode_data f)) ! i
              = f_data f ! ((2 * i + 2) mod 52) XOR f_data f ! ((2 * i + 3) mod 52)
            \<and> df_err (snd (frame_decode_data f)) ! i
              = df_data (snd (frame_decode_data f)) ! i
                XOR f_data f ! ((2 * i + 5) mod 52) XOR f_data f ! ((2 * i + 6) mod 52)
                XOR f_data f ! ((2 * i + 7) mod 52))
       \<and> (\<forall>i<50.
            df_data (snd (frame_decode_data f)) ! (26 + i)
              = f_data f ! (52 + (2 * i + 2) mod 100) XOR f_data f ! (52 + (2 * i + 3) mod 100)
            \<and> df_err (snd (frame_decode_data f)) ! (26 + i)
              = df_data (snd (frame_decode_data f)) ! (26 + i)
                XOR f_data f ! (52 + (2 * i + 5) mod 100) XOR f_data f ! (52 + (2 * i + 6) mod 100)
                XOR f_data f ! (52 + (2 * i + 7) mod 100))
       \<and> fst (frame_decode_data f) = (\<Sum>i<76. uint (df_err (snd (frame_decode_data f)) ! i))
       \<and> df_frame_no (snd (frame_decode_data f)) = f_frame_no f"
proof -
  let ?a = "channel_decoder (f_data f) 26"
  let ?b = "channel_decoder (drop 52 (f_data f)) 50"
  note la = channel_decoder_facts(1,2) [of "f_data f" 26]
  note lb = channel_decoder_facts(1,2) [of "drop 52 (f_data f)" 50]
  have d: "drop 52 (f_data f) ! j = f_data f ! (52 + j)" if "j < 100" for j
    using that assms by simp
  have first: "df_data (snd (frame_decode_data f)) ! i
              = f_data f ! ((2 * i + 2) mod 52) XOR f_data f ! ((2 * i + 3) mod 52)
            \<and> df_err (snd (frame_decode_data f)) ! i
              = df_data (snd (frame_decode_data f)) ! i
                XOR f_data f ! ((2 * i + 5) mod 52) XOR f_data f ! ((2 * i + 6) mod 52)
                XOR f_data f ! ((2 * i + 7) mod 52)" if "i < 26" for i
    using that la channel_decoder_facts(5,6) [of i 26 "f_data f"]
    by (simp add: frame_decode_data_eq nth_append)
  have second: "df_data (snd (frame_decode_data f)) ! (26 + i)
              = f_data f ! (52 + (2 * i + 2) mod 100) XOR f_data f ! (52 + (2 * i + 3) mod 100)
            \<and> df_err (snd (frame_decode_data f)) ! (26 + i)
              = df_data (snd (frame_decode_data f)) ! (26 + i)
                XOR f_data f ! (52 + (2 * i + 5) mod 100) XOR f_data f ! (52 + (2 * i + 6) mod 100)
                XOR f_data f ! (52 + (2 * i + 7) mod 100)" if "i < 50" for i
    using that la lb channel_decoder_facts(5,6) [of i 50 "drop 52 (f_data f)"]
    by (simp add: frame_decode_data_eq nth_append d)
  have "fst (frame_decode_data f) = sum_list (map uint (df_err (snd (frame_decode_data f))))"
    by (simp add: frame_decode_data_eq channel_decoder_facts(3) [symmetric])
  also have "\<dots> = (\<Sum>i<length (df_err (snd (frame_decode_data f))).
                        uint (df_err (snd (frame_decode_data f)) ! i))"
    by (rule sum_list_uint_nth)
  also have "length (df_err (snd (frame_decode_data f))) = 76"
    using la lb by (simp add: frame_decode_data_eq)
  finally have errs: "fst (frame_decode_data f)
      = (\<Sum>i<76. uint (df_err (snd (frame_decode_data f)) ! i))" .
  have "length (df_data (snd (frame_decode_data f))) = 76"
    and "length (df_err (snd (frame_decode_data f))) = 76"
    and "df_frame_no (snd (frame_decode_data f)) = f_frame_no f"
    using la lb by (simp_all add: frame_decode_data_eq)
  with first second errs show ?thesis
    by blast
qed

theorem frame_decode_data_spec_witness:
  "length (f_data example_frame) = FRAME_DATA_LEN
   \<and> length (df_data (snd (frame_decode_data example_frame))) = 76
   \<and> fst (frame_decode_data example_frame)
       = (\<Sum>i<76. uint (df_err (snd (frame_decode_data example_frame)) ! i))"
proof -
  have "length (f_data example_frame) = FRAME_DATA_LEN"
    by (simp add: example_frame_def)
  then show ?thesis
    using frame_decode_data_spec [of example_frame] by blast
qed

text \<open>
  C4. Descramble. With the key 0 the frame is unchanged. With a key \<open>s > 0\<close> every
  payload bit \<open>p[k]\<close>, \<open>k < 152\<close>, is XORed with \<open>scramb_table[(k + s) mod 127]\<close>,
  and nothing else of the frame changes. The table has 127 entries, starts with seven
  ones and satisfies \<open>s[k] = s[k-1] XOR s[k-7]\<close> for \<open>7 \<le> k \<le> 126\<close>: it is the
  LFSR sequence of the spec. (A negative key is outside the contract: C would read before
  the table.)
\<close>

theorem frame_descramble_spec:
  "frame_descramble f 0 = f
   \<and> (0 < s \<and> length (f_data f) = FRAME_DATA_LEN \<longrightarrow>
        f_data (frame_descramble f s)
          = map (\<lambda>k. f_data f ! k XOR scramb_table ! ((k + nat s) mod 127)) [0..<FRAME_DATA_LEN]
        \<and> f_frame_no (frame_descramble f s) = f_frame_no f)
   \<and> length scramb_table = 127
   \<and> (\<forall>k<7. scramb_table ! k = 1)
   \<and> (\<forall>k. 7 \<le> k \<and> k < 127 \<longrightarrow>
          scramb_table ! k = scramb_table ! (k - 1) XOR scramb_table ! (k - 7))"
proof (intro conjI impI allI)
  show "frame_descramble f 0 = f"
    by (simp add: frame_descramble_def)
next
  assume a: "0 < s \<and> length (f_data f) = FRAME_DATA_LEN"
  have "nat ((int k + s) smod 127) = (k + nat s) mod 127" for k
    using a by (simp add: smod_nonneg nat_add_distrib)
  then show "f_data (frame_descramble f s)
          = map (\<lambda>k. f_data f ! k XOR scramb_table ! ((k + nat s) mod 127)) [0..<FRAME_DATA_LEN]"
    using a frame_descramble_data [of s f] by simp
  show "f_frame_no (frame_descramble f s) = f_frame_no f"
    by (simp add: frame_descramble_def)
next
  show "length scramb_table = 127"
    by (rule scramb_table_length)
next
  fix k :: nat assume "k < 7"
  then have "k \<in> set [0..<7]"
    by (simp only: set_upt atLeastLessThan_iff) simp
  with scramb_table_seed show "scramb_table ! k = 1"
    unfolding list_all_iff by blast
next
  fix k :: nat assume "7 \<le> k \<and> k < 127"
  then have "k \<in> set [7..<127]"
    by (simp only: set_upt atLeastLessThan_iff)
  with scramb_table_lfsr show "scramb_table ! k = scramb_table ! (k - 1) XOR scramb_table ! (k - 7)"
    unfolding list_all_iff by blast
qed

theorem frame_descramble_spec_witness:
  "(0::int) < 42 \<and> length (f_data example_frame) = FRAME_DATA_LEN
   \<and> f_data (frame_descramble example_frame 42)
       = map (\<lambda>k. f_data example_frame ! k XOR scramb_table ! ((k + nat 42) mod 127))
           [0..<FRAME_DATA_LEN]
   \<and> scramb_table ! 7 = scramb_table ! (7 - 1) XOR scramb_table ! (7 - 7)"
proof -
  have "(0::int) < 42 \<and> length (f_data example_frame) = FRAME_DATA_LEN"
    by (simp add: example_frame_def)
  moreover have "(7::nat) \<le> 7 \<and> (7::nat) < 127"
    by simp
  ultimately show ?thesis
    using frame_descramble_spec [of example_frame 42] by blast
qed

text \<open>
  C5 (as the code has it). After the update of the 128 scores, \<open>scr_guess\<close> is a key
  of maximal score. Among keys of equal maximal score the search keeps the one with the
  highest index, except that key 0 is kept against key 1: key 1 is chosen against key 0
  only with a strictly higher score. Whenever
  \<open>scr_stat[best] - scr_confidence > scr_stat[second]\<close> holds, strictly, \<open>second\<close>
  being the runner-up score, \<open>scr\<close> becomes the best key; and when the runner-up
  score is held by a key that the search visits before the best key, \<open>scr\<close> becomes
  the best key exactly then and otherwise stays as it was, so that a channel in detection
  leaves detection exactly then. (What happens below the threshold when every key with
  the runner-up score comes after the best key is not part of this statement.)
\<close>

theorem detect_scr_selection:
  assumes "length (scr_stat phys_ch) = 128"
  shows "let phys_ch' = fst (detect_scr X phys_ch f tr);
             stat = scr_stat phys_ch';
             best = nat (scr_guess phys_ch');
             committed = (stat ! best - scr_confidence phys_ch > runner_up stat best)
         in scr_guess phys_ch' = int best \<and> best < 128
            \<and> (\<forall>k<128. stat ! k \<le> stat ! best)
            \<and> (\<forall>k<128. stat ! k = stat ! best \<longrightarrow> k \<le> best \<or> (k = 1 \<and> best = 0))
            \<and> (best = 1 \<longrightarrow> stat ! 0 < stat ! 1)
            \<and> (committed \<longrightarrow> scr phys_ch' = int best)
            \<and> (\<not> committed \<and> (\<exists>j\<in>set (visited_before best). stat ! j = runner_up stat best)
                 \<longrightarrow> scr phys_ch' = scr phys_ch)
            \<and> (scr phys_ch' = int best \<or> scr phys_ch' = scr phys_ch)
            \<and> (scr phys_ch = PHYS_CH_SCR_DETECT
                 \<and> (\<exists>j\<in>set (visited_before best). stat ! j = runner_up stat best) \<longrightarrow>
                 (scr phys_ch' \<noteq> PHYS_CH_SCR_DETECT \<longleftrightarrow> committed))"
proof -
  let ?c = "fst (detect_scr X phys_ch f tr)"
  let ?st = "scr_stat ?c"
  let ?m = "fst (detect_scr_max ?st)"
  let ?m2 = "snd (detect_scr_max ?st)"
  have g: "scr_guess ?c = int ?m" and b: "nat (scr_guess ?c) = ?m"
    by (simp_all add: detect_scr_result(1))
  have s: "scr ?c = (if ?st ! ?m - scr_confidence phys_ch > ?st ! ?m2 then int ?m else scr phys_ch)"
    by (rule detect_scr_result(2))
  have 1: "?m < 128" and 2: "\<forall>k<128. ?st ! k \<le> ?st ! ?m"
    and 3: "\<forall>k<128. ?st ! k = ?st ! ?m \<longrightarrow> k \<le> ?m \<or> (k = 1 \<and> ?m = 0)"
    and 4: "?m = 1 \<longrightarrow> ?st ! 0 < ?st ! 1"
    using detect_scr_max_props [where stat = ?st] detect_scr_max_second(1) [of ?st]
    by simp_all
  have 5: "?st ! ?m - scr_confidence phys_ch > runner_up ?st ?m \<longrightarrow> scr ?c = int ?m"
    using detect_scr_max_second_bounds(1) [of ?st] s by simp
  have 6: "\<not> ?st ! ?m - scr_confidence phys_ch > runner_up ?st ?m
      \<and> (\<exists>j\<in>set (visited_before ?m). ?st ! j = runner_up ?st ?m) \<longrightarrow> scr ?c = scr phys_ch"
    using detect_scr_max_second_bounds(2) [of ?st] s by auto
  have 7: "scr ?c = int ?m \<or> scr ?c = scr phys_ch"
    using s by simp
  have 8: "scr phys_ch = PHYS_CH_SCR_DETECT
      \<and> (\<exists>j\<in>set (visited_before ?m). ?st ! j = runner_up ?st ?m) \<longrightarrow>
      (scr ?c \<noteq> PHYS_CH_SCR_DETECT \<longleftrightarrow> ?st ! ?m - scr_confidence phys_ch > runner_up ?st ?m)"
    using 5 6 by (auto simp: PHYS_CH_SCR_DETECT_def)
  show ?thesis
    unfolding Let_def b using g 1 2 3 4 5 6 7 8 by blast
qed

text \<open>
  C5 as stated fails on the tie rule: on a fresh channel with a frame that every key
  fails, all 128 scores are 0, and \<open>scr_guess\<close> is 127, not the lowest key 0 of the
  same maximal score.
\<close>

theorem detect_scr_selection_counterexample:
  "scr_guess (fst (detect_scr crc_fail_externs fresh_ch example_frame [])) = 127
   \<and> scr_stat (fst (detect_scr crc_fail_externs fresh_ch example_frame [])) ! 0
     = scr_stat (fst (detect_scr crc_fail_externs fresh_ch example_frame [])) ! 127"
proof -
  let ?m = "fst (detect_scr_max (replicate 128 (0::int)))"
  have "127 \<le> ?m \<or> ((127::nat) = 1 \<and> ?m = 0)"
    by (rule detect_scr_max_props(5)) (simp_all add: detect_scr_max_props(1))
  with detect_scr_max_props(1) [where stat = "replicate 128 0"] have "?m = 127"
    by simp
  then show ?thesis
    by (simp add: detect_scr_result(1) detect_scr_all_rejected)
qed

theorem detect_scr_selection_witness:
  "length (scr_stat commit_ch) = 128 \<and> scr commit_ch = PHYS_CH_SCR_DETECT
   \<and> scr_guess (fst (detect_scr crc_fail_externs commit_ch example_frame [])) = 42
   \<and> scr (fst (detect_scr crc_fail_externs commit_ch example_frame [])) = 42"
proof -
  let ?c = "fst (detect_scr crc_fail_externs commit_ch example_frame [])"
  let ?st = "(replicate 128 (0::int))[42 := 58]"
  have len: "length (scr_stat commit_ch) = 128" and d: "scr commit_ch = PHYS_CH_SCR_DETECT"
    and c: "scr_confidence commit_ch = 50"
    by (simp_all add: commit_ch_def fresh_ch_def tetrapol_phys_ch_create_def)
  note t = detect_scr_selection [OF len, of crc_fail_externs example_frame "[]",
      unfolded Let_def commit_ch_stat]
  have st: "?st ! k = (if k = 42 then 58 else 0)" if "k < 128" for k
    using that by (simp add: nth_list_update)
  from t have t1: "scr_guess ?c = int (nat (scr_guess ?c))"
    and b: "nat (scr_guess ?c) < 128"
    and t3: "\<forall>k<128. ?st ! k \<le> ?st ! nat (scr_guess ?c)"
    and t4: "?st ! nat (scr_guess ?c) - scr_confidence commit_ch
               > runner_up ?st (nat (scr_guess ?c)) \<longrightarrow>
             scr ?c = int (nat (scr_guess ?c))"
    by blast+
  have "?st ! 42 \<le> ?st ! nat (scr_guess ?c)"
    using t3 by (rule allE [where x = 42]) simp
  with st [OF b] have best: "nat (scr_guess ?c) = 42"
    by (simp split: if_splits)
  have "runner_up ?st 42 \<le> 0"
    by (rule runner_up_le) (simp add: st)
  then have "?st ! 42 - scr_confidence commit_ch > runner_up ?st 42"
    by (simp add: c)
  with t4 have "scr ?c = 42"
    unfolding best by simp
  moreover have "scr_guess ?c = 42"
    using t1 unfolding best by simp
  ultimately show ?thesis
    using len d by simp
qed

text \<open>
  C6. SCR score update and non-negativity. When \<open>detect_scr\<close> runs (which
  \<open>process_frame\<close> does exactly while \<open>scr\<close> is \<open>PHYS_CH_SCR_DETECT\<close>), the score of
  every key \<open>k\<close> in [0,127] becomes \<open>max(0, score - 2)\<close> when the speculative pipeline
  of the key yields convolutional errors > 0 or a CRC failure, and \<open>score + 1\<close>
  otherwise. Hence the invariant that all 128 scores are at least 0 is preserved by
  \<open>detect_scr\<close>, by \<open>process_frame\<close>, by the driver, by \<open>tetrapol_recv2\<close> and by
  \<open>set_scr_confidence\<close>; \<open>set_scr\<close> zeroes all scores, and the constructor
  establishes the invariant.
\<close>

theorem scr_score_update_nonneg:
  "(length (scr_stat phys_ch) = 128 \<and> k < 128 \<longrightarrow>
      scr_stat (fst (detect_scr X phys_ch f tr)) ! k
        = (if fst (detect_scr_decode (band phys_ch) f k) > 0
              \<or> \<not> decoded_frame_check_crc X (snd (detect_scr_decode (band phys_ch) f k))
                    (FRAME_TYPE_DATA X)
           then max 0 (scr_stat phys_ch ! k - 2) else scr_stat phys_ch ! k + 1))
   \<and> scr_stat (fst (snd (process_frame X phys_ch f tr)))
        = (if scr phys_ch = PHYS_CH_SCR_DETECT then scr_stat (fst (detect_scr X phys_ch f tr))
           else scr_stat phys_ch)
   \<and> (scr_stat_ok phys_ch \<longrightarrow>
        scr_stat_ok (fst (detect_scr X phys_ch f tr))
        \<and> scr_stat_ok (fst (snd (process_frame X phys_ch f tr)))
        \<and> scr_stat_ok (fst (snd (tetrapol_phys_ch_process X phys_ch tr)))
        \<and> scr_stat_ok (fst (tetrapol_recv2 phys_ch buf len))
        \<and> scr_stat_ok (tetrapol_phys_ch_set_scr_confidence phys_ch c))
   \<and> scr_stat (tetrapol_phys_ch_set_scr phys_ch s) = replicate 128 0
   \<and> scr_stat_ok (tetrapol_phys_ch_set_scr phys_ch s)
   \<and> scr_stat_ok (tetrapol_phys_ch_create b r)"
proof (intro conjI impI)
  assume "length (scr_stat phys_ch) = 128 \<and> k < 128"
  then show "scr_stat (fst (detect_scr X phys_ch f tr)) ! k
        = (if fst (detect_scr_decode (band phys_ch) f k) > 0
              \<or> \<not> decoded_frame_check_crc X (snd (detect_scr_decode (band phys_ch) f k))
                    (FRAME_TYPE_DATA X)
           then max 0 (scr_stat phys_ch ! k - 2) else scr_stat phys_ch ! k + 1)"
    by (simp only: detect_scr_stat nth_map_upt) (simp add: scr_score_def)
next
  show "scr_stat (fst (snd (process_frame X phys_ch f tr)))
        = (if scr phys_ch = PHYS_CH_SCR_DETECT then scr_stat (fst (detect_scr X phys_ch f tr))
           else scr_stat phys_ch)"
    by (rule process_frame_scr_stat)
next
  assume ok: "scr_stat_ok phys_ch"
  show "scr_stat_ok (fst (detect_scr X phys_ch f tr))"
    by (rule detect_scr_ok [OF ok])
  show "scr_stat_ok (fst (snd (process_frame X phys_ch f tr)))"
    by (rule process_frame_ok [OF ok])
  show "scr_stat_ok (fst (snd (tetrapol_phys_ch_process X phys_ch tr)))"
    by (rule tetrapol_phys_ch_process_ok [OF ok])
  show "scr_stat_ok (fst (tetrapol_recv2 phys_ch buf len))"
    using ok by (simp add: tetrapol_recv2_def Let_def scr_stat_ok_nth)
  show "scr_stat_ok (tetrapol_phys_ch_set_scr_confidence phys_ch c)"
    using ok by (simp add: tetrapol_phys_ch_set_scr_confidence_def scr_stat_ok_nth)
next
  show "scr_stat (tetrapol_phys_ch_set_scr phys_ch s) = replicate 128 0"
    by (simp add: tetrapol_phys_ch_set_scr_def)
  show "scr_stat_ok (tetrapol_phys_ch_set_scr phys_ch s)"
    by (simp add: tetrapol_phys_ch_set_scr_def scr_stat_ok_nth)
  show "scr_stat_ok (tetrapol_phys_ch_create b r)"
    by (simp add: tetrapol_phys_ch_create_def scr_stat_ok_nth)
qed

theorem scr_score_update_nonneg_witness:
  "length (scr_stat fresh_ch) = 128 \<and> (5::nat) < 128 \<and> scr_stat_ok fresh_ch
   \<and> scr_stat (fst (detect_scr crc_fail_externs fresh_ch example_frame [])) ! 5 = 0
   \<and> scr_stat_ok (fst (detect_scr crc_fail_externs fresh_ch example_frame []))"
proof -
  have h: "length (scr_stat fresh_ch) = 128 \<and> (5::nat) < 128" and ok: "scr_stat_ok fresh_ch"
    by (simp_all add: fresh_ch_def tetrapol_phys_ch_create_def scr_stat_ok_nth)
  have "scr_stat fresh_ch ! 5 = 0" and "\<not> decoded_frame_check_crc crc_fail_externs df t" for df t
    by (simp_all add: fresh_ch_def tetrapol_phys_ch_create_def crc_fail_externs_def)
  then show ?thesis
    using scr_score_update_nonneg [of fresh_ch 5 crc_fail_externs example_frame "[]"] h ok
    by simp
qed

text \<open>
  C7 (as the code has it). A call of \<open>get_frame\<close> that finds at least \<open>FRAME_LEN\<close>
  buffered bits returns 1 or -1. It returns -1 exactly when the sum test fails and the
  doubled counter reaches \<open>FRAME_LEN\<close>. When it returns 1, also when the sum test has
  failed, \<open>last_sync_err\<close> is the \<open>sync_err\<close> of the current frame; when it returns
  -1 (sync loss), \<open>last_sync_err\<close> keeps its previous value.
\<close>

theorem get_frame_last_sync_err:
  assumes "FRAME_LEN \<le> length (data phys_ch)"
  shows "(fst (get_frame phys_ch) = 1 \<or> fst (get_frame phys_ch) = -1)
       \<and> (fst (get_frame phys_ch) = -1 \<longleftrightarrow>
            cmp_frame_sync (data phys_ch) + last_sync_err phys_ch > MAX_FRAME_SYNC_ERR
            \<and> 1 + 2 * total_sync_err phys_ch \<ge> int FRAME_LEN)
       \<and> (fst (get_frame phys_ch) = 1 \<longrightarrow>
            last_sync_err (fst (snd (get_frame phys_ch))) = cmp_frame_sync (data phys_ch))
       \<and> (fst (get_frame phys_ch) = -1 \<longrightarrow>
            last_sync_err (fst (snd (get_frame phys_ch))) = last_sync_err phys_ch)"
  using assms by (cases phys_ch rule: get_frame_cases) auto

text \<open>
  C7 as stated fails: on the channel \<open>sync_loss_ch\<close> (160 buffered zero bits, whose
  sync word has 4 errors, \<open>last_sync_err = 2\<close>, \<open>total_sync_err = 127\<close>) the call
  takes the sync-loss branch and leaves \<open>last_sync_err\<close> at 2.
\<close>

theorem get_frame_last_sync_err_counterexample:
  "FRAME_LEN \<le> length (data sync_loss_ch)
   \<and> fst (get_frame sync_loss_ch) = -1
   \<and> cmp_frame_sync (data sync_loss_ch) = 4
   \<and> last_sync_err (fst (snd (get_frame sync_loss_ch))) = 2
   \<and> last_sync_err (fst (snd (get_frame sync_loss_ch))) \<noteq> cmp_frame_sync (data sync_loss_ch)"
  by (simp add: sync_loss_ch_def tetrapol_phys_ch_create_def get_frame_def Let_def
        cmp_frame_sync_zeros)

theorem get_frame_last_sync_err_witness:
  "FRAME_LEN \<le> length (data sync_loss_ch)
   \<and> fst (get_frame sync_loss_ch) = -1
   \<and> last_sync_err (fst (snd (get_frame sync_loss_ch))) = last_sync_err sync_loss_ch"
proof -
  have len: "FRAME_LEN \<le> length (data sync_loss_ch)"
    by (simp add: sync_loss_ch_def)
  have "cmp_frame_sync (data sync_loss_ch) + last_sync_err sync_loss_ch > MAX_FRAME_SYNC_ERR
        \<and> 1 + 2 * total_sync_err sync_loss_ch \<ge> int FRAME_LEN"
    by (simp add: sync_loss_ch_def cmp_frame_sync_zeros)
  with len show ?thesis
    using get_frame_last_sync_err [of sync_loss_ch] by blast
qed

text \<open>
  C8 (as the code has it). Control-channel error handling. On a UHF channel, if the
  convolutional error count of the frame is nonzero, or \<open>data[0]\<close> of the decoded frame
  differs from \<open>FRAME_TYPE_DATA\<close>, or the CRC check fails, then \<open>process_frame_cch\<close>
  reports the error, calls \<open>multiblock_reset\<close> and \<open>segmentation_reset\<close>, does not
  call \<open>multiblock_process\<close>, leaves the frame number of the frame as it was, and
  returns 0. On a VHF channel it returns -1 before any decoding and calls neither reset.
  In both cases \<open>process_frame\<close> leaves \<open>has_frame_sync\<close> unchanged.
\<close>

theorem process_frame_cch_errors:
  "(band phys_ch = TETRAPOL_BAND_UHF \<longrightarrow>
      (let s = (if scr phys_ch = PHYS_CH_SCR_DETECT then scr_guess phys_ch else scr phys_ch);
           f2 = frame_deinterleave (frame_diff_dec (frame_descramble f s)) interleave_data_UHF;
           errs = fst (frame_decode_data f2);
           df = snd (frame_decode_data f2)
       in errs \<noteq> 0 \<or> uint (df_data df ! 0) \<noteq> FRAME_TYPE_DATA X
            \<or> \<not> decoded_frame_check_crc X df (FRAME_TYPE_DATA X) \<longrightarrow>
          fst (process_frame_cch X phys_ch f tr) = 0
          \<and> snd (snd (process_frame_cch X phys_ch f tr))
              = tr @ [if errs \<noteq> 0 then ERR_decode (f_frame_no f)
                      else if uint (df_data df ! 0) \<noteq> FRAME_TYPE_DATA X
                           then ERR_type (f_frame_no f) else ERR_crc (f_frame_no f),
                      Multiblock_reset, Segmentation_reset]
          \<and> f_frame_no (fst (snd (process_frame_cch X phys_ch f tr))) = f_frame_no f))
   \<and> (band phys_ch = TETRAPOL_BAND_VHF \<longrightarrow>
        fst (process_frame_cch X phys_ch f tr) = -1
        \<and> snd (snd (process_frame_cch X phys_ch f tr)) = tr @ [Not_implemented_VHF])
   \<and> has_frame_sync (fst (snd (process_frame X phys_ch f tr))) = has_frame_sync phys_ch"
proof (intro conjI impI)
  assume "band phys_ch = TETRAPOL_BAND_UHF"
  then show "let s = (if scr phys_ch = PHYS_CH_SCR_DETECT then scr_guess phys_ch else scr phys_ch);
           f2 = frame_deinterleave (frame_diff_dec (frame_descramble f s)) interleave_data_UHF;
           errs = fst (frame_decode_data f2);
           df = snd (frame_decode_data f2)
       in errs \<noteq> 0 \<or> uint (df_data df ! 0) \<noteq> FRAME_TYPE_DATA X
            \<or> \<not> decoded_frame_check_crc X df (FRAME_TYPE_DATA X) \<longrightarrow>
          fst (process_frame_cch X phys_ch f tr) = 0
          \<and> snd (snd (process_frame_cch X phys_ch f tr))
              = tr @ [if errs \<noteq> 0 then ERR_decode (f_frame_no f)
                      else if uint (df_data df ! 0) \<noteq> FRAME_TYPE_DATA X
                           then ERR_type (f_frame_no f) else ERR_crc (f_frame_no f),
                      Multiblock_reset, Segmentation_reset]
          \<and> f_frame_no (fst (snd (process_frame_cch X phys_ch f tr))) = f_frame_no f"
    by (simp add: process_frame_cch_def Let_def pipeline_frame_no split: prod.splits)
next
  assume "band phys_ch = TETRAPOL_BAND_VHF"
  then show "fst (process_frame_cch X phys_ch f tr) = -1"
    and "snd (snd (process_frame_cch X phys_ch f tr)) = tr @ [Not_implemented_VHF]"
    by (simp_all add: process_frame_cch_def Let_def)
next
  obtain r c f' t where p: "process_frame X phys_ch f tr = (r, c, f', t)"
    by (cases "process_frame X phys_ch f tr") auto
  show "has_frame_sync (fst (snd (process_frame X phys_ch f tr))) = has_frame_sync phys_ch"
    using process_frame_sync_fields(3) [OF p] by (simp add: p)
qed

text \<open>
  C8 as stated fails on the VHF band: on a fresh VHF control channel, for a frame whose
  convolutional error count is not zero and that the CRC check rejects, the call
  returns -1 and calls no reset.
\<close>

theorem process_frame_cch_errors_counterexample:
  "band vhf_ch = TETRAPOL_BAND_VHF \<and> rch_type vhf_ch = TETRAPOL_RCH_CONTROL
   \<and> fst (frame_decode_data (frame_descramble example_frame 0)) \<noteq> 0
   \<and> \<not> decoded_frame_check_crc crc_fail_externs
         (snd (frame_decode_data (frame_descramble example_frame 0)))
         (FRAME_TYPE_DATA crc_fail_externs)
   \<and> fst (process_frame_cch crc_fail_externs vhf_ch example_frame []) = -1
   \<and> snd (snd (process_frame_cch crc_fail_externs vhf_ch example_frame []))
       = [Not_implemented_VHF]"
proof -
  have "frame_descramble example_frame 0 = example_frame"
    by (simp add: frame_descramble_def)
  with example_frame_errs have "fst (frame_decode_data (frame_descramble example_frame 0)) \<noteq> 0"
    by simp
  then show ?thesis
    by (simp add: vhf_ch_def tetrapol_phys_ch_create_def crc_fail_externs_def
        process_frame_cch_def Let_def)
qed

theorem process_frame_cch_errors_witness:
  "band fresh_ch = TETRAPOL_BAND_UHF
   \<and> \<not> decoded_frame_check_crc crc_fail_externs
         (snd (frame_decode_data (frame_deinterleave
            (frame_diff_dec (frame_descramble example_frame 0)) interleave_data_UHF)))
         (FRAME_TYPE_DATA crc_fail_externs)
   \<and> fst (process_frame_cch crc_fail_externs fresh_ch example_frame []) = 0
   \<and> f_frame_no (fst (snd (process_frame_cch crc_fail_externs fresh_ch example_frame []))) = 0"
proof -
  have b: "band fresh_ch = TETRAPOL_BAND_UHF"
    and s: "scr fresh_ch = PHYS_CH_SCR_DETECT" "scr_guess fresh_ch = 0"
    by (simp_all add: fresh_ch_def tetrapol_phys_ch_create_def)
  have c: "\<not> decoded_frame_check_crc crc_fail_externs df t" for df t
    by (simp add: crc_fail_externs_def)
  have n: "f_frame_no example_frame = 0"
    by (simp add: example_frame_def)
  show ?thesis
    using process_frame_cch_errors [of fresh_ch example_frame crc_fail_externs "[]"] b s c n
    by (simp add: Let_def)
qed

text \<open>
  C9. \<open>tetrapol_recv2\<close> on a channel whose buffer holds at most \<open>10*FRAME_LEN\<close>
  bits, called with a length that is not negative and a source that holds that many
  bytes, returns the minimum of the requested length and the free space
  \<open>10*FRAME_LEN - data_len\<close> and appends exactly that many bits, so the buffer still
  holds at most \<open>10*FRAME_LEN = 1600\<close> bits; on an empty buffer a request of
  \<open>10*FRAME_LEN + 100\<close> bits returns \<open>10*FRAME_LEN\<close>. The bound is kept by
  every other operation as well: the driver, the two setters, and the constructor.
\<close>

theorem tetrapol_recv2_bounded:
  assumes "length (data phys_ch) \<le> DATA_SIZE"
  shows "(0 \<le> len \<and> nat len \<le> length buf \<longrightarrow>
            snd (tetrapol_recv2 phys_ch buf len) = min len (int DATA_SIZE - data_len phys_ch)
          \<and> data (fst (tetrapol_recv2 phys_ch buf len))
              = data phys_ch @ take (nat (snd (tetrapol_recv2 phys_ch buf len))) buf
          \<and> length (data (fst (tetrapol_recv2 phys_ch buf len)))
              = length (data phys_ch) + nat (snd (tetrapol_recv2 phys_ch buf len))
          \<and> length (data (fst (tetrapol_recv2 phys_ch buf len))) \<le> DATA_SIZE)
       \<and> (data phys_ch = [] \<and> len = int (DATA_SIZE + 100) \<and> nat len \<le> length buf \<longrightarrow>
            snd (tetrapol_recv2 phys_ch buf len) = int DATA_SIZE)
       \<and> length (data (fst (snd (tetrapol_phys_ch_process X phys_ch tr)))) \<le> DATA_SIZE
       \<and> length (data (tetrapol_phys_ch_set_scr phys_ch s)) \<le> DATA_SIZE
       \<and> length (data (tetrapol_phys_ch_set_scr_confidence phys_ch c)) \<le> DATA_SIZE
       \<and> length (data (tetrapol_phys_ch_create b r)) \<le> DATA_SIZE"
proof -
  have recv: "0 \<le> len \<and> nat len \<le> length buf \<longrightarrow>
            snd (tetrapol_recv2 phys_ch buf len) = min len (int DATA_SIZE - data_len phys_ch)
          \<and> data (fst (tetrapol_recv2 phys_ch buf len))
              = data phys_ch @ take (nat (snd (tetrapol_recv2 phys_ch buf len))) buf
          \<and> length (data (fst (tetrapol_recv2 phys_ch buf len)))
              = length (data phys_ch) + nat (snd (tetrapol_recv2 phys_ch buf len))
          \<and> length (data (fst (tetrapol_recv2 phys_ch buf len))) \<le> DATA_SIZE"
    using assms by (auto simp: tetrapol_recv2_def Let_def min_def)
  have full: "data phys_ch = [] \<and> len = int (DATA_SIZE + 100) \<and> nat len \<le> length buf \<longrightarrow>
            snd (tetrapol_recv2 phys_ch buf len) = int DATA_SIZE"
    by (simp add: tetrapol_recv2_def Let_def)
  have "length (data (fst (snd (tetrapol_phys_ch_process X phys_ch tr)))) \<le> DATA_SIZE"
    using tetrapol_phys_ch_process_data_le [of X phys_ch tr] assms by simp
  moreover have "length (data (tetrapol_phys_ch_set_scr phys_ch s)) \<le> DATA_SIZE"
    using assms by (simp add: tetrapol_phys_ch_set_scr_def)
  moreover have "length (data (tetrapol_phys_ch_set_scr_confidence phys_ch c)) \<le> DATA_SIZE"
    using assms by (simp add: tetrapol_phys_ch_set_scr_confidence_def)
  moreover have "length (data (tetrapol_phys_ch_create b r)) \<le> DATA_SIZE"
    by (simp add: tetrapol_phys_ch_create_def)
  ultimately show ?thesis
    using recv full by blast
qed

theorem tetrapol_recv2_bounded_witness:
  "length (data (tetrapol_phys_ch_create TETRAPOL_BAND_UHF TETRAPOL_RCH_CONTROL)) \<le> DATA_SIZE
   \<and> nat 1700 \<le> length (replicate 1700 (1::uint8_t))
   \<and> snd (tetrapol_recv2 (tetrapol_phys_ch_create TETRAPOL_BAND_UHF TETRAPOL_RCH_CONTROL)
            (replicate 1700 1) 1700) = 1600"
proof -
  have a: "length (data (tetrapol_phys_ch_create TETRAPOL_BAND_UHF TETRAPOL_RCH_CONTROL)) \<le> DATA_SIZE"
    by (simp add: tetrapol_phys_ch_create_def)
  have b: "data (tetrapol_phys_ch_create TETRAPOL_BAND_UHF TETRAPOL_RCH_CONTROL) = []"
    by (simp add: tetrapol_phys_ch_create_def)
  have c: "nat 1700 \<le> length (replicate 1700 (1::uint8_t))"
    by simp
  show ?thesis
    using tetrapol_recv2_bounded [OF a, of 1700 "replicate 1700 1"] a b c by simp
qed

text \<open>
  C10. The table \<open>interleave_data_UHF\<close> holds every index from 0 to 151 exactly once.
  Hence every lookup of \<open>frame_deinterleave\<close> with this table is in bounds, entry
  \<open>j\<close> of the result is entry \<open>interleave_data_UHF[j]\<close> of the payload, and
  the function is a bijection on the frames with a payload of 152 bytes: no payload bit
  is dropped or duplicated.
\<close>

theorem interleave_data_UHF_permutation:
  "distinct interleave_data_UHF \<and> set interleave_data_UHF = {0..<FRAME_DATA_LEN}
   \<and> length interleave_data_UHF = FRAME_DATA_LEN
   \<and> (\<forall>j<FRAME_DATA_LEN. interleave_data_UHF ! j < FRAME_DATA_LEN)
   \<and> (\<forall>f. length (f_data f) = FRAME_DATA_LEN \<longrightarrow>
          f_data (frame_deinterleave f interleave_data_UHF)
            = map (\<lambda>j. f_data f ! (interleave_data_UHF ! j)) [0..<FRAME_DATA_LEN])
   \<and> bij_betw (\<lambda>f. frame_deinterleave f interleave_data_UHF)
        {f :: frame_t. length (f_data f) = FRAME_DATA_LEN}
        {f :: frame_t. length (f_data f) = FRAME_DATA_LEN}"
proof -
  have "bij_betw (\<lambda>f. frame_deinterleave f interleave_data_UHF)
        {f :: frame_t. length (f_data f) = 152} {f :: frame_t. length (f_data f) = 152}"
    unfolding bij_betw_def
  proof
    show "inj_on (\<lambda>f. frame_deinterleave f interleave_data_UHF) {f :: frame_t. length (f_data f) = 152}"
      by (rule inj_onI) (simp add: frame_deinterleave_inj)
    show "(\<lambda>f. frame_deinterleave f interleave_data_UHF) ` {f :: frame_t. length (f_data f) = 152}
          = {f. length (f_data f) = 152}"
    proof (rule set_eqI, rule iffI)
      fix g :: frame_t
      assume "g \<in> (\<lambda>f. frame_deinterleave f interleave_data_UHF) ` {f. length (f_data f) = 152}"
      then show "g \<in> {f. length (f_data f) = 152}"
        by (auto simp: frame_deinterleave_data)
    next
      fix g :: frame_t
      assume "g \<in> {f. length (f_data f) = 152}"
      then have "length (f_data g) = 152" by simp
      then obtain f where "length (f_data f) = 152" "frame_deinterleave f interleave_data_UHF = g"
        by (rule frame_deinterleave_surj)
      then show "g \<in> (\<lambda>f. frame_deinterleave f interleave_data_UHF) ` {f. length (f_data f) = 152}"
        by auto
    qed
  qed
  then show ?thesis
    using interleave_distinct interleave_set interleave_length interleave_nth_less
      frame_deinterleave_data
    by simp
qed

theorem interleave_data_UHF_permutation_witness:
  "length (f_data example_frame) = FRAME_DATA_LEN
   \<and> f_data (frame_deinterleave example_frame interleave_data_UHF)
       = map (\<lambda>j. f_data example_frame ! (interleave_data_UHF ! j)) [0..<FRAME_DATA_LEN]
   \<and> interleave_data_UHF ! 6 < FRAME_DATA_LEN"
proof -
  have len: "length (f_data example_frame) = 152"
    by (simp add: example_frame_def)
  moreover have "(6::nat) < 152"
    by simp
  ultimately show ?thesis
    using interleave_data_UHF_permutation by blast
qed

end
